theory Spec2Isabelle
  imports Main
begin

section \<open>Regular expressions of the crawler\<close>

text \<open>
  \<^verbatim>\<open>crawler.ts\<close> uses four regular-expression literals. They are kept as data and run by
  one backtracking matcher, so each literal can be compared with its syntax tree.
  Characters are the code units below 256; the matcher only ever looks forward (the
  literals have no anchors, word boundaries or look-behind), so a match attempt at an
  index depends on the suffix of the subject from that index only.
\<close>

datatype cclass =
    Lit char        \<comment> \<open>a literal character\<close>
  | NotLit char     \<comment> \<open>\<^verbatim>\<open>[^c]\<close>\<close>
  | Digit           \<comment> \<open>\<^verbatim>\<open>\d\<close>\<close>
  | Space           \<comment> \<open>\<^verbatim>\<open>\s\<close>\<close>
  | Dot             \<comment> \<open>\<^verbatim>\<open>.\<close>\<close>

datatype regex =
    Eps                  \<comment> \<open>the empty pattern\<close>
  | Atom cclass
  | Cat regex regex      \<comment> \<open>\<^verbatim>\<open>ab\<close>\<close>
  | Alt regex regex      \<comment> \<open>\<^verbatim>\<open>a|b\<close>\<close>
  | Star regex           \<comment> \<open>greedy \<^verbatim>\<open>a*\<close>\<close>
  | Lazy regex           \<comment> \<open>lazy \<^verbatim>\<open>a*?\<close>\<close>
  | Opt regex            \<comment> \<open>greedy \<^verbatim>\<open>a?\<close>\<close>
  | Group nat regex      \<comment> \<open>capture group number n\<close>
  | Ahead regex          \<comment> \<open>\<^verbatim>\<open>(?=a)\<close>\<close>

definition isDigit :: "char \<Rightarrow> bool" where
  "isDigit c = (c \<in> set ''0123456789'')"

text \<open>White space and line terminators of ECMAScript, among the code units below 256:
  tab, line feed, vertical tab, form feed, carriage return, space, no-break space.\<close>

definition isSpace :: "char \<Rightarrow> bool" where
  "isSpace c = (c \<in> {CHR 0x09, CHR 0x0A, CHR 0x0B, CHR 0x0C, CHR 0x0D, CHR 0x20, CHR 0xA0})"

definition isLineTerminator :: "char \<Rightarrow> bool" where
  "isLineTerminator c = (c = CHR 0x0A \<or> c = CHR 0x0D)"

fun accepts :: "cclass \<Rightarrow> char \<Rightarrow> bool" where
  "accepts (Lit c) x = (x = c)"
| "accepts (NotLit c) x = (x \<noteq> c)"
| "accepts Digit x = isDigit x"
| "accepts Space x = isSpace x"
| "accepts Dot x = (\<not> isLineTerminator x)"

text \<open>\<^verbatim>\<open>a+\<close> and \<^verbatim>\<open>a{1,}\<close>: one \<open>a\<close>, then greedily more.\<close>

definition Plus :: "regex \<Rightarrow> regex" where
  "Plus r = Cat r (Star r)"

text \<open>A run of literal characters.\<close>

fun lits :: "string \<Rightarrow> regex" where
  "lits [] = Eps"
| "lits (c # cs) = Cat (Atom (Lit c)) (lits cs)"

type_synonym captures = "nat \<rightharpoonup> string"

text \<open>
  The state of a match attempt is the rest of the subject and the captures so far.
  \<open>matcher r st\<close> lists, in the order a backtracking engine tries them, every state in
  which \<open>r\<close> can end when started in \<open>st\<close>; the head of the list is the engine's answer.
  An iteration of a star or of \<^verbatim>\<open>?\<close> that consumes nothing is rejected, as ECMAScript
  does. ECMAScript also resets the captures of the groups inside a star at every
  iteration; the literals have no group inside a star.
\<close>

function matcher :: "regex \<Rightarrow> string \<times> captures \<Rightarrow> (string \<times> captures) list" where
  "matcher Eps st = [st]"
| "matcher (Atom c) ([], cs) = []"
| "matcher (Atom c) (x # xs, cs) = (if accepts c x then [(xs, cs)] else [])"
| "matcher (Cat r1 r2) st = concat (map (matcher r2) (matcher r1 st))"
| "matcher (Alt r1 r2) st = matcher r1 st @ matcher r2 st"
| "matcher (Star r) st =
     concat (map (\<lambda>st'. if length (fst st') < length (fst st) then matcher (Star r) st' else [])
                 (matcher r st)) @ [st]"
| "matcher (Lazy r) st =
     st # concat (map (\<lambda>st'. if length (fst st') < length (fst st) then matcher (Lazy r) st' else [])
                      (matcher r st))"
| "matcher (Opt r) st =
     filter (\<lambda>st'. length (fst st') < length (fst st)) (matcher r st) @ [st]"
| "matcher (Group n r) st =
     map (\<lambda>st'. (fst st', (snd st')(n \<mapsto> take (length (fst st) - length (fst st')) (fst st))))
         (matcher r st)"
| "matcher (Ahead r) st = (case matcher r st of [] \<Rightarrow> [] | st' # _ \<Rightarrow> [(fst st, snd st')])"
  by pat_completeness auto
termination
  by (relation "measures [\<lambda>(r, st). size r, \<lambda>(r, st). length (fst st)]") auto

text \<open>The equations of the two stars call themselves under a \<open>\<lambda>\<close>: they are unfolded
  by hand.\<close>

declare matcher.simps(6,7) [simp del]

text \<open>
  \<^verbatim>\<open>str.match(re)\<close> for a regular expression without the \<^verbatim>\<open>g\<close> flag: the match attempt
  is made at index 0, 1, ... up to the length of the subject, and the first index that
  succeeds gives the result; \<open>None\<close> is JavaScript's \<^verbatim>\<open>null\<close>. The result is the matched
  text (\<^verbatim>\<open>m[0]\<close>) and the captures (\<^verbatim>\<open>m[1]\<close>, \<^verbatim>\<open>m[2]\<close>, ...).
\<close>

fun str_match :: "string \<Rightarrow> regex \<Rightarrow> (string \<times> captures) option" where
  "str_match [] r =
     (case matcher r ([], Map.empty) of
        [] \<Rightarrow> None
      | st' # _ \<Rightarrow> Some ([], snd st'))"
| "str_match (x # xs) r =
     (case matcher r (x # xs, Map.empty) of
        [] \<Rightarrow> str_match xs r
      | st' # _ \<Rightarrow> Some (take (length (x # xs) - length (fst st')) (x # xs), snd st'))"

text \<open>
  \<^verbatim>\<open>str.replace(re, rep)\<close> for a regular expression with the \<^verbatim>\<open>g\<close> flag and a
  replacement without \<^verbatim>\<open>$\<close> patterns: every match, found from left to right and never
  overlapping, is replaced; after an empty match the search moves on by one character.
\<close>

function replace_g :: "string \<Rightarrow> regex \<Rightarrow> string \<Rightarrow> string" where
  "replace_g s r rep =
     (case matcher r (s, Map.empty) of
        [] \<Rightarrow> (case s of [] \<Rightarrow> [] | x # xs \<Rightarrow> x # replace_g xs r rep)
      | st' # _ \<Rightarrow>
          if length (fst st') < length s then rep @ replace_g (fst st') r rep
          else rep @ (case s of [] \<Rightarrow> [] | x # xs \<Rightarrow> x # replace_g xs r rep))"
  by pat_completeness auto
termination
  by (relation "measure (\<lambda>(s, r, rep). length s)") auto

declare replace_g.simps [simp del]

text \<open>\<^verbatim>\<open>str.trim()\<close>: white space and line terminators are removed at both ends.\<close>

definition trim :: "string \<Rightarrow> string" where
  "trim s = rev (dropWhile isSpace (rev (dropWhile isSpace s)))"

subsection \<open>The four literals\<close>

text \<open>\<^verbatim>\<open>/(.*?)\s*\((\d+v\d+)\)/\<close> (\<^verbatim>\<open>teamBracketRegex\<close>)\<close>

definition teamBracketRegex :: regex where
  "teamBracketRegex =
     Cat (Group 1 (Lazy (Atom Dot)))
    (Cat (Star (Atom Space))
    (Cat (Atom (Lit (CHR ''('')))
    (Cat (Group 2 (Cat (Plus (Atom Digit)) (Cat (Atom (Lit (CHR ''v''))) (Plus (Atom Digit)))))
         (Atom (Lit (CHR '')''))))))"

text \<open>\<^verbatim>\<open>/<[^>]+>/g\<close> (the argument of \<^verbatim>\<open>teamnamerich.replace\<close>)\<close>

definition tagRegex :: regex where
  "tagRegex = Cat (Atom (Lit (CHR ''<''))) (Cat (Plus (Atom (NotLit (CHR ''>'')))) (Atom (Lit (CHR ''>''))))"

text \<open>\<^verbatim>\<open>/(-?\d{1,})(?=\s*\(<span)/\<close>\<close>

definition overallRegex :: regex where
  "overallRegex =
     Cat (Group 1 (Cat (Opt (Atom (Lit (CHR ''-'')))) (Plus (Atom Digit))))
         (Ahead (Cat (Star (Atom Space)) (lits ''(<span'')))"

text \<open>\<^verbatim>\<open>/((\+|-)\d+)(?=<\/span)/\<close>\<close>

definition changeRegex :: regex where
  "changeRegex =
     Cat (Group 1 (Cat (Group 2 (Alt (Atom (Lit (CHR ''+''))) (Atom (Lit (CHR ''-'')))))
                       (Plus (Atom Digit))))
         (Ahead (lits ''</span''))"


section \<open>Data model\<close>

record MatchSummary =
  matchId :: string
  team_name :: string
  bracket :: string
  outcome :: string
  points_change :: string
  date :: string
  duration :: string
  arena :: string

text \<open>An optional field of the interface (\<^verbatim>\<open>class?: string\<close>) is an \<open>option\<close>; \<open>None\<close> is a
  field that the payload does not have.\<close>

record CharacterDetail =
  realm :: string
  charname :: string
  class' :: "string option"
  race :: "string option"
  gender :: "string option"
  teamname :: string
  teamnamerich :: string
  damageDone :: string
  deaths :: string
  healingDone :: string
  killingBlows :: string
  matchmaking_change :: "string option"
  personal_change :: string

text \<open>\<^verbatim>\<open>MatchDetails\<close> has the fields of \<^verbatim>\<open>MatchSummary\<close> and \<^verbatim>\<open>character_details\<close>.\<close>

record MatchDetails = MatchSummary +
  character_details :: "CharacterDetail list"

datatype error = RemoteFetchError

section \<open>Summary extraction\<close>

text \<open>
  The selector engine is outside the crawler. A row of \<^verbatim>\<open>table#data-table-history tbody tr\<close>
  is given by the texts that the selectors of \<^verbatim>\<open>extractMatchSummaries\<close> read from it:
  \<open>td n\<close> is \<^verbatim>\<open>$(element).find("td:nth-child(n)").text()\<close> and \<open>td2_a\<close> is
  \<^verbatim>\<open>$(element).find("td:nth-child(2) a").text()\<close>.
\<close>

record HistoryRow =
  td1 :: string
  td2_a :: string
  td3 :: string
  td4 :: string
  td5 :: string
  td6 :: string
  td7 :: string

text \<open>Lines 86 to 101: the team name and the bracket of a row, as a pair.\<close>

definition splitTeamBracket :: "string \<Rightarrow> string \<times> string" where
  "splitTeamBracket teamBracketText =
     (if teamBracketText \<noteq> [] then
        (case str_match teamBracketText teamBracketRegex of
           Some teamBracketMatch \<Rightarrow>
             (case (snd teamBracketMatch 1, snd teamBracketMatch 2) of
                (Some g1, Some g2) \<Rightarrow> (g1, g2)
              | _ \<Rightarrow> ([], []))
         | None \<Rightarrow> ([], []))
      else ([], []))"

definition extractRow :: "HistoryRow \<Rightarrow> MatchSummary" where
  "extractRow element =
     (let teamBracketText = trim (td2_a element);
          tb = splitTeamBracket teamBracketText
      in \<lparr> matchId = trim (td1 element),
           team_name = fst tb,
           bracket = snd tb,
           outcome = trim (td3 element),
           points_change = trim (td4 element),
           date = trim (td5 element),
           duration = trim (td6 element),
           arena = trim (td7 element) \<rparr>)"

definition extractMatchSummaries :: "HistoryRow list \<Rightarrow> MatchSummary list" where
  "extractMatchSummaries rows = map extractRow rows"

section \<open>Normalisation of a character detail\<close>

text \<open>The template \<^verbatim>\<open>`${change[0]} (${overall[0]})`\<close> of lines 200 and 211, with the two
  matches made on the raw value; without both matches the raw value stays.\<close>

definition formatChange :: "string \<Rightarrow> string" where
  "formatChange raw =
     (case str_match raw changeRegex of
        None \<Rightarrow> raw
      | Some changeMatch \<Rightarrow>
          (case str_match raw overallRegex of
             None \<Rightarrow> raw
           | Some overallMatch \<Rightarrow> fst changeMatch @ '' ('' @ fst overallMatch @ '')''))"

text \<open>The body of \<^verbatim>\<open>characterDetails.forEach\<close>, lines 184 to 214. A field is truthy when it
  is present and not the empty string.\<close>

definition normalize :: "CharacterDetail \<Rightarrow> CharacterDetail" where
  "normalize characterDetail =
     (let cd1 = characterDetail\<lparr>teamnamerich := replace_g (teamnamerich characterDetail) tagRegex []\<rparr>;
          cd2 = (case matchmaking_change cd1 of
                   Some raw \<Rightarrow>
                     if raw \<noteq> [] then cd1\<lparr>matchmaking_change := Some (formatChange raw)\<rparr> else cd1
                 | None \<Rightarrow> cd1)
      in if personal_change cd2 \<noteq> []
         then cd2\<lparr>personal_change := formatChange (personal_change cd2)\<rparr>
         else cd2)"

section \<open>Aggregation\<close>

text \<open>
  \<^verbatim>\<open>fetchMatchData\<close> talks to the remote site: it is a parameter
  \<open>fetch matchId character realmName\<close> that reads and changes the state \<open>'w\<close> of the world and
  either fails (the rejected promise of the HTTP client) or returns the decoded payload.
  The limiter's wrapper hands the arguments to the fetcher and its result or failure
  back; the loop awaits each call before it goes on, so it is a left-to-right recursion
  over the identifiers. \<open>acc\<close> is \<^verbatim>\<open>matchDetailsList\<close>.
\<close>

type_synonym 'w fetcher = "string \<Rightarrow> string \<Rightarrow> string \<Rightarrow> 'w \<Rightarrow> (error + CharacterDetail list) \<times> 'w"

fun joinLoop :: "'w fetcher \<Rightarrow> string \<Rightarrow> string \<Rightarrow> MatchSummary list \<Rightarrow> string list
    \<Rightarrow> MatchDetails list \<Rightarrow> 'w \<Rightarrow> (error + MatchDetails list) \<times> 'w" where
  "joinLoop fetch character realmName matchSummaries [] acc w = (Inr acc, w)"
| "joinLoop fetch character realmName matchSummaries (mid # matchIds) acc w =
     (case fetch mid character realmName w of
        (Inl e, w') \<Rightarrow> (Inl e, w')
      | (Inr characterDetails, w') \<Rightarrow>
          (let normalized = map normalize characterDetails
           in case find (\<lambda>summary. matchId summary = mid) matchSummaries of
                Some matchSummary \<Rightarrow>
                  joinLoop fetch character realmName matchSummaries matchIds
                    (acc @ [\<lparr> matchId = matchId matchSummary,
                               team_name = team_name matchSummary,
                               bracket = bracket matchSummary,
                               outcome = outcome matchSummary,
                               points_change = points_change matchSummary,
                               date = date matchSummary,
                               duration = duration matchSummary,
                               arena = arena matchSummary,
                               character_details = normalized \<rparr>]) w'
              | None \<Rightarrow> joinLoop fetch character realmName matchSummaries matchIds acc w'))"

definition getMatchDetails :: "'w fetcher \<Rightarrow> string \<Rightarrow> string \<Rightarrow> MatchSummary list \<Rightarrow> 'w
    \<Rightarrow> (error + MatchDetails list) \<times> 'w" where
  "getMatchDetails fetch character realmName matchSummaries w =
     joinLoop fetch character realmName matchSummaries (map matchId matchSummaries) [] w"


section \<open>Vocabulary of the properties\<close>

text \<open>A match-details record carries the summary fields of a summary.\<close>

definition joined :: "MatchSummary \<Rightarrow> MatchDetails \<Rightarrow> bool" where
  "joined s d \<longleftrightarrow>
     matchId d = matchId s \<and> team_name d = team_name s \<and> bracket d = bracket s \<and>
     outcome d = outcome s \<and> points_change d = points_change s \<and> date d = date s \<and>
     duration d = duration s \<and> arena d = arena s"

text \<open>Sample data: a summary for an identifier, a raw character detail as the site sends
  it, a fetcher that answers every call with one character and counts its calls, and a
  fetcher that fails for one identifier.\<close>

definition summaryOf :: "string \<Rightarrow> MatchSummary" where
  "summaryOf i =
     \<lparr> matchId = i, team_name = ''Alpha Strike'', bracket = ''2v2'', outcome = ''Win'',
       points_change = ''+12'', date = ''2023-05-01'', duration = ''03:21'',
       arena = ''Nagrand Arena'' \<rparr>"

definition rawDetail :: CharacterDetail where
  "rawDetail =
     \<lparr> realm = ''Icecrown'', charname = ''Dumpster'', class' = Some ''8'', race = None,
       gender = None, teamname = ''Team Alpha'',
       teamnamerich = ''<span>Team Alpha</span>'', damageDone = ''10432'', deaths = ''0'',
       healingDone = ''312'', killingBlows = ''2'', matchmaking_change = None,
       personal_change = ''200 (<span class=\"history-win\">+15</span>)'' \<rparr>"

definition fetchOne :: "nat fetcher" where
  "fetchOne mid character realmName w = (Inr [rawDetail\<lparr>charname := mid\<rparr>], Suc w)"

definition fetchFailing :: "string \<Rightarrow> nat fetcher" where
  "fetchFailing bad mid character realmName w =
     (if mid = bad then (Inl RemoteFetchError, w) else fetchOne mid character realmName w)"

text \<open>A fetcher that fails on one call only, the call made when the counter is \<open>n\<close>, and
  answers every other call.\<close>

definition fetchFailingCall :: "nat \<Rightarrow> nat fetcher" where
  "fetchFailingCall n mid character realmName w =
     (if w = n then (Inl RemoteFetchError, Suc w) else fetchOne mid character realmName w)"

text \<open>Auxiliary notions for reasoning about the matcher. \<open>startsWith l s\<close>: the string
  \<open>s\<close> begins with \<open>l\<close>.\<close>

definition startsWith :: "string \<Rightarrow> string \<Rightarrow> bool" where
  "startsWith l s \<longleftrightarrow> take (length l) s = l"

text \<open>The rests of \<open>s\<close> that a greedy star over a character class tries, longest run first,
  and those a lazy star tries, shortest run first.\<close>

fun greedyTails :: "(char \<Rightarrow> bool) \<Rightarrow> string \<Rightarrow> string list" where
  "greedyTails p [] = [[]]"
| "greedyTails p (x # xs) = (if p x then greedyTails p xs @ [x # xs] else [x # xs])"

fun lazyTails :: "(char \<Rightarrow> bool) \<Rightarrow> string \<Rightarrow> string list" where
  "lazyTails p [] = [[]]"
| "lazyTails p (x # xs) = (x # xs) # (if p x then lazyTails p xs else [])"

text \<open>The matcher followed by a continuation \<open>k\<close> on every state it ends in.\<close>

definition run :: "regex \<Rightarrow> string \<times> captures \<Rightarrow> (string \<times> captures \<Rightarrow> 'a list) \<Rightarrow> 'a list" where
  "run r st k = concat (map k (matcher r st))"

text \<open>The rest of \<open>s\<close> after a leading tag: a \<^verbatim>\<open><\<close>, one or more characters other than
  \<^verbatim>\<open>>\<close>, and a \<^verbatim>\<open>>\<close>.\<close>

fun tagEnd :: "string \<Rightarrow> string option" where
  "tagEnd (x # y # t) =
     (if x = CHR ''<'' \<and> y \<noteq> CHR ''>'' then
        (case dropWhile (\<lambda>c. c \<noteq> CHR ''>'') t of [] \<Rightarrow> None | _ # rest \<Rightarrow> Some rest)
      else None)"
| "tagEnd _ = None"

text \<open>The rest of \<open>s\<close> after a leading bracket \<^verbatim>\<open>(NvN)\<close>, and the part of
  \<^verbatim>\<open>teamBracketRegex\<close> that matches it.\<close>

definition bracketAt :: "string \<Rightarrow> string option" where
  "bracketAt s =
     (case s of
        p # d # t \<Rightarrow>
          if p = CHR ''('' \<and> isDigit d then
            (case dropWhile isDigit t of
               v # e # u \<Rightarrow>
                 if v = CHR ''v'' \<and> isDigit e then
                   (case dropWhile isDigit u of
                      q # rest \<Rightarrow> if q = CHR '')'' then Some rest else None
                    | [] \<Rightarrow> None)
                 else None
             | _ \<Rightarrow> None)
          else None
      | _ \<Rightarrow> None)"

definition bracketTail :: regex where
  "bracketTail =
     Cat (Atom (Lit (CHR ''('')))
    (Cat (Group 2 (Cat (Plus (Atom Digit)) (Cat (Atom (Lit (CHR ''v''))) (Plus (Atom Digit)))))
         (Atom (Lit (CHR '')''))))"

text \<open>Following the spec's words for the first step of the normaliser (strip all markup
  tags: replace any \<^verbatim>\<open><...>\<close> span with the empty string, leaving plain text): from left
  to right, a leading tag is dropped and any other character is kept. The rest after a
  tag is shorter than the string, which is why the function terminates.\<close>

lemma tagEnd_shorter: "tagEnd s = Some rest \<Longrightarrow> length rest < length s"
proof (induction s rule: tagEnd.induct)
  case (1 x y t)
  then obtain z where z: "dropWhile (\<lambda>c. c \<noteq> CHR ''>'') t = z # rest"
    by (auto split: if_splits list.splits)
  have "length (dropWhile (\<lambda>c. c \<noteq> CHR ''>'') t) \<le> length t" by (rule length_dropWhile_le)
  with z show ?case by simp
qed simp_all

function specStripTags :: "string \<Rightarrow> string" where
  "specStripTags [] = []"
| "specStripTags (x # xs) =
     (case tagEnd (x # xs) of Some rest \<Rightarrow> specStripTags rest | None \<Rightarrow> x # specStripTags xs)"
  by pat_completeness auto
termination
  by (relation "measure length") (auto dest: tagEnd_shorter)

text \<open>The string contains a tag span.\<close>

definition hasTag :: "string \<Rightarrow> bool" where
  "hasTag s \<longleftrightarrow>
     (\<exists>pre body post. s = pre @ ''<'' @ body @ ''>'' @ post \<and> body \<noteq> [] \<and> CHR ''>'' \<notin> set body)"

text \<open>The string contains a bracket \<^verbatim>\<open>(NvN)\<close>.\<close>

definition hasBracket :: "string \<Rightarrow> bool" where
  "hasBracket s \<longleftrightarrow>
     (\<exists>pre n1 n2 post. s = pre @ ''('' @ n1 @ ''v'' @ n2 @ '')'' @ post \<and>
        n1 \<noteq> [] \<and> (\<forall>c\<in>set n1. isDigit c) \<and> n2 \<noteq> [] \<and> (\<forall>c\<in>set n2. isDigit c))"

text \<open>The form in which the site sends a change field: the overall value (digits, with
  an optional \<^verbatim>\<open>-\<close>), white space, \<^verbatim>\<open>(<span\<close> with attributes, \<^verbatim>\<open>>\<close>, the delta (a sign
  and digits), \<^verbatim>\<open></span>\<close> and the rest, as in \<^verbatim>\<open>1543 (<span class="history-win">+12</span>)\<close>.\<close>

definition siteFormat :: "string \<Rightarrow> string \<Rightarrow> string \<Rightarrow> bool" where
  "siteFormat raw overall delta \<longleftrightarrow>
     (\<exists>mi ds ws attrs sg es post.
        raw = overall @ ws @ ''(<span'' @ attrs @ ''>'' @ delta @ ''</span>'' @ post \<and>
        overall = mi @ ds \<and> (mi = [] \<or> mi = ''-'') \<and> ds \<noteq> [] \<and> (\<forall>c\<in>set ds. isDigit c) \<and>
        (\<forall>c\<in>set ws. isSpace c) \<and> CHR ''<'' \<notin> set attrs \<and>
        delta = sg # es \<and> (sg = CHR ''+'' \<or> sg = CHR ''-'') \<and> es \<noteq> [] \<and>
        (\<forall>c\<in>set es. isDigit c))"

text \<open>A team name that the pattern takes whole: no line terminator, no opening
  parenthesis, no white space at its end.\<close>

definition plainName :: "string \<Rightarrow> bool" where
  "plainName name \<longleftrightarrow>
     (\<forall>c\<in>set name. \<not> isLineTerminator c) \<and> CHR ''('' \<notin> set name \<and>
     (name = [] \<or> \<not> isSpace (last name))"

text \<open>A bracket label \<^verbatim>\<open>NvN\<close>.\<close>

definition bracketLabel :: "string \<Rightarrow> bool" where
  "bracketLabel b \<longleftrightarrow>
     (\<exists>n1 n2. b = n1 @ ''v'' @ n2 \<and> n1 \<noteq> [] \<and> (\<forall>c\<in>set n1. isDigit c) \<and>
        n2 \<noteq> [] \<and> (\<forall>c\<in>set n2. isDigit c))"

section \<open>The join loop\<close>

lemma find_matchId:
  "find (\<lambda>s. matchId s = i) sums = Some ms \<Longrightarrow> matchId ms = i \<and> ms \<in> set sums"
  by (induction sums) (auto split: if_splits)

lemma find_None_iff_matchId:
  "find (\<lambda>s. matchId s = i) sums = None \<longleftrightarrow> i \<notin> set (map matchId sums)"
  by (induction sums) auto

text \<open>What a successful run of the loop has appended to the accumulator.\<close>

lemma joinLoop_Inr:
  "joinLoop fetch c r sums ids acc w = (Inr out, w') \<Longrightarrow>
     \<exists>new. out = acc @ new \<and>
       map matchId new = filter (\<lambda>i. find (\<lambda>s. matchId s = i) sums \<noteq> None) ids \<and>
       (\<forall>d\<in>set new. \<exists>ms. find (\<lambda>s. matchId s = matchId d) sums = Some ms \<and> joined ms d)"
proof (induction ids arbitrary: acc w)
  case Nil
  then show ?case by simp
next
  case (Cons i ids)
  obtain res w1 where f: "fetch i c r w = (res, w1)" by (cases "fetch i c r w")
  show ?case
  proof (cases res)
    case (Inl e)
    with Cons.prems f show ?thesis by simp
  next
    case (Inr cds)
    show ?thesis
    proof (cases "find (\<lambda>s. matchId s = i) sums")
      case None
      with Cons.prems f Inr have "joinLoop fetch c r sums ids acc w1 = (Inr out, w')" by simp
      from Cons.IH [OF this] None show ?thesis by auto
    next
      case (Some ms)
      let ?d = "\<lparr> matchId = matchId ms, team_name = team_name ms, bracket = bracket ms,
          outcome = outcome ms, points_change = points_change ms, date = date ms,
          duration = duration ms, arena = arena ms, character_details = map normalize cds \<rparr>"
      from Cons.prems f Inr Some
      have "joinLoop fetch c r sums ids (acc @ [?d]) w1 = (Inr out, w')" by simp
      from Cons.IH [OF this] obtain new where n: "out = (acc @ [?d]) @ new"
        "map matchId new = filter (\<lambda>i. find (\<lambda>s. matchId s = i) sums \<noteq> None) ids"
        "\<forall>d\<in>set new. \<exists>ms. find (\<lambda>s. matchId s = matchId d) sums = Some ms \<and> joined ms d"
        by blast
      have mi: "matchId ms = i" using find_matchId [OF Some] by simp
      have "out = acc @ (?d # new)" using n(1) by simp
      moreover have "map matchId (?d # new) =
          filter (\<lambda>i. find (\<lambda>s. matchId s = i) sums \<noteq> None) (i # ids)"
        using n(2) Some mi by simp
      moreover have "\<forall>d\<in>set (?d # new).
          \<exists>ms. find (\<lambda>s. matchId s = matchId d) sums = Some ms \<and> joined ms d"
        using n(3) Some mi by (simp add: joined_def)
      ultimately show ?thesis by blast
    qed
  qed
qed

text \<open>A fetch that fails for one of the identifiers makes the loop fail.\<close>

lemma joinLoop_Inl:
  "i \<in> set ids \<Longrightarrow> \<forall>w. fst (fetch i c r w) = Inl e \<Longrightarrow>
     fst (joinLoop fetch c r sums ids acc w) = Inl RemoteFetchError"
proof (induction ids arbitrary: acc w)
  case Nil
  then show ?case by simp
next
  case (Cons j ids)
  obtain res w1 where f: "fetch j c r w = (res, w1)" by (cases "fetch j c r w")
  show ?case
  proof (cases res)
    case (Inl e')
    then show ?thesis using f by (cases e') simp
  next
    case (Inr cds)
    with f Cons.prems(2) have "j \<noteq> i" by (metis fst_conv sum.distinct(1))
    with Cons.prems have "i \<in> set ids" by simp
    from Cons.IH [OF this Cons.prems(2)] show ?thesis using f Inr
      by (simp split: option.splits)
  qed
qed

text \<open>When no fetch fails the loop returns a list.\<close>

lemma joinLoop_total:
  "\<forall>i w. \<exists>v w'. fetch i c r w = (Inr v, w') \<Longrightarrow>
     \<exists>out w'. joinLoop fetch c r sums ids acc w = (Inr out, w')"
proof (induction ids arbitrary: acc w)
  case Nil
  then show ?case by simp
next
  case (Cons j ids)
  from Cons.prems obtain v w1 where f: "fetch j c r w = (Inr v, w1)" by blast
  show ?case using f Cons.IH [OF Cons.prems] by (simp split: option.splits)
qed

lemma fetchOne_succeeds: "\<forall>i w. \<exists>v w'. fetchOne i c r w = (Inr v, w')"
  by (simp add: fetchOne_def)

lemma filter_found_ids:
  "filter (\<lambda>i. find (\<lambda>s. matchId s = i) sums \<noteq> None) (map matchId sums) = map matchId sums"
  by (simp add: find_None_iff_matchId)

text \<open>
  C1. Whatever the fetcher returns, the list that \<^verbatim>\<open>getMatchDetails\<close> returns is no longer
  than \<^verbatim>\<open>matchSummaries\<close>, the \<^verbatim>\<open>matchId\<close> of every record in it is the \<^verbatim>\<open>matchId\<close> of an input
  summary, and the summary fields of the record are those of the first input summary with
  that \<^verbatim>\<open>matchId\<close>. In the loop, run on any list of identifiers, an identifier without a
  summary adds nothing to the output.
\<close>

theorem getMatchDetails_joins_summaries:
  "(getMatchDetails fetch character realmName matchSummaries w = (Inr out, w') \<longrightarrow>
      length out \<le> length matchSummaries \<and>
      (\<forall>d\<in>set out. matchId d \<in> set (map matchId matchSummaries) \<and>
         (\<exists>ms. find (\<lambda>s. matchId s = matchId d) matchSummaries = Some ms \<and> joined ms d))) \<and>
   (joinLoop fetch character realmName matchSummaries matchIds [] w = (Inr out2, w2) \<longrightarrow>
      length out2 \<le> length matchIds \<and>
      (\<forall>i\<in>set matchIds. find (\<lambda>s. matchId s = i) matchSummaries = None \<longrightarrow>
         i \<notin> set (map matchId out2)))"
proof (intro conjI impI)
  assume "getMatchDetails fetch character realmName matchSummaries w = (Inr out, w')"
  then have "joinLoop fetch character realmName matchSummaries (map matchId matchSummaries) [] w
      = (Inr out, w')"
    by (simp add: getMatchDetails_def)
  from joinLoop_Inr [OF this] have
    "map matchId out =
       filter (\<lambda>i. find (\<lambda>s. matchId s = i) matchSummaries \<noteq> None) (map matchId matchSummaries)"
    and j: "\<forall>d\<in>set out. \<exists>ms. find (\<lambda>s. matchId s = matchId d) matchSummaries = Some ms \<and> joined ms d"
    by fastforce+
  then have ids: "map matchId out = map matchId matchSummaries"
    by (simp only: filter_found_ids)
  from ids show "length out \<le> length matchSummaries" by (metis length_map order_refl)
  show "\<forall>d\<in>set out. matchId d \<in> set (map matchId matchSummaries) \<and>
      (\<exists>ms. find (\<lambda>s. matchId s = matchId d) matchSummaries = Some ms \<and> joined ms d)"
  proof
    fix d assume d: "d \<in> set out"
    then have "matchId d \<in> set (map matchId out)" by simp
    with ids j d show "matchId d \<in> set (map matchId matchSummaries) \<and>
        (\<exists>ms. find (\<lambda>s. matchId s = matchId d) matchSummaries = Some ms \<and> joined ms d)"
      by simp
  qed
next
  assume "joinLoop fetch character realmName matchSummaries matchIds [] w = (Inr out2, w2)"
  from joinLoop_Inr [OF this]
  have ids: "map matchId out2 =
      filter (\<lambda>i. find (\<lambda>s. matchId s = i) matchSummaries \<noteq> None) matchIds"
    by auto
  have "length out2 = length (map matchId out2)" by simp
  also have "\<dots> \<le> length matchIds" unfolding ids by (rule length_filter_le)
  finally show "length out2 \<le> length matchIds" .
  show "\<forall>i\<in>set matchIds. find (\<lambda>s. matchId s = i) matchSummaries = None \<longrightarrow>
      i \<notin> set (map matchId out2)"
    unfolding ids by simp
qed

theorem getMatchDetails_joins_summaries_witness:
  "\<exists>out w' out2 w2.
     getMatchDetails fetchOne ''Dumpster'' ''Icecrown''
       [summaryOf ''A'', (summaryOf ''A'')\<lparr>arena := ''Ruins of Lordaeron''\<rparr>, summaryOf ''B''] 0
       = (Inr out, w') \<and>
     length out \<le> 3 \<and>
     (\<forall>d\<in>set out. arena d = ''Nagrand Arena'') \<and>
     joinLoop fetchOne ''Dumpster'' ''Icecrown'' [summaryOf ''A'', summaryOf ''B'']
       [''A'', ''Z'', ''B''] [] 0 = (Inr out2, w2) \<and>
     length out2 \<le> 3 \<and> ''Z'' \<notin> set (map matchId out2)"
proof -
  let ?sums = "[summaryOf ''A'', (summaryOf ''A'')\<lparr>arena := ''Ruins of Lordaeron''\<rparr>, summaryOf ''B'']"
  obtain out w' where h1:
    "getMatchDetails fetchOne ''Dumpster'' ''Icecrown'' ?sums 0 = (Inr out, w')"
    unfolding getMatchDetails_def
    using joinLoop_total [of fetchOne "''Dumpster''" "''Icecrown''", OF fetchOne_succeeds]
    by blast
  obtain out2 w2 where h2:
    "joinLoop fetchOne ''Dumpster'' ''Icecrown'' [summaryOf ''A'', summaryOf ''B'']
       [''A'', ''Z'', ''B''] [] 0 = (Inr out2, w2)"
    using joinLoop_total [of fetchOne "''Dumpster''" "''Icecrown''", OF fetchOne_succeeds]
    by blast
  note t1 = getMatchDetails_joins_summaries
    [of fetchOne "''Dumpster''" "''Icecrown''" ?sums 0 out w', THEN conjunct1, rule_format, OF h1]
  note t2 = getMatchDetails_joins_summaries
    [of fetchOne "''Dumpster''" "''Icecrown''" "[summaryOf ''A'', summaryOf ''B'']" 0 _ _
        "[''A'', ''Z'', ''B'']" out2 w2, THEN conjunct2, rule_format, OF h2]
  have a: "\<forall>d\<in>set out. arena d = ''Nagrand Arena''"
  proof
    fix d assume "d \<in> set out"
    with t1 obtain ms where "find (\<lambda>s. matchId s = matchId d) ?sums = Some ms" "joined ms d"
      by blast
    moreover have "find (\<lambda>s. matchId s = i) ?sums =
        (if i = ''A'' then Some (summaryOf ''A'')
         else if i = ''B'' then Some (summaryOf ''B'') else None)" for i
      by (simp add: summaryOf_def)
    ultimately have "ms = summaryOf ''A'' \<or> ms = summaryOf ''B''" "arena d = arena ms"
      by (auto simp: joined_def split: if_splits)
    then show "arena d = ''Nagrand Arena''"
      by (auto simp: summaryOf_def)
  qed
  have z: "find (\<lambda>s. matchId s = ''Z'') [summaryOf ''A'', summaryOf ''B''] = None"
    by (simp add: summaryOf_def)
  from t1 t2 z a h1 h2 show ?thesis by (intro exI [of _ out] exI [of _ w'] exI [of _ out2] exI [of _ w2]) simp
qed

text \<open>
  C2. When \<^verbatim>\<open>getMatchDetails\<close> returns, the identifiers of its output are, in order, the
  input identifiers that have a summary, which are all of them: the output follows the
  order of the input whatever the fetcher answers. When every fetch succeeds it does return.
\<close>

theorem getMatchDetails_preserves_order:
  "(getMatchDetails fetch character realmName matchSummaries w = (Inr out, w') \<longrightarrow>
      map matchId out =
        filter (\<lambda>i. find (\<lambda>s. matchId s = i) matchSummaries \<noteq> None) (map matchId matchSummaries) \<and>
      map matchId out = map matchId matchSummaries) \<and>
   ((\<forall>i w. \<exists>v w'. fetch i character realmName w = (Inr v, w')) \<longrightarrow>
      (\<exists>out w'. getMatchDetails fetch character realmName matchSummaries w = (Inr out, w') \<and>
         map matchId out = map matchId matchSummaries))"
proof -
  have a: "map matchId out =
        filter (\<lambda>i. find (\<lambda>s. matchId s = i) matchSummaries \<noteq> None) (map matchId matchSummaries) \<and>
      map matchId out = map matchId matchSummaries"
    if "getMatchDetails fetch character realmName matchSummaries w = (Inr out, w')" for out w'
  proof -
    from that have "joinLoop fetch character realmName matchSummaries
        (map matchId matchSummaries) [] w = (Inr out, w')"
      by (simp add: getMatchDetails_def)
    from joinLoop_Inr [OF this] have "map matchId out =
        filter (\<lambda>i. find (\<lambda>s. matchId s = i) matchSummaries \<noteq> None) (map matchId matchSummaries)"
      by fastforce
    then show ?thesis by (simp only: filter_found_ids)
  qed
  have b: "\<exists>out w'. getMatchDetails fetch character realmName matchSummaries w = (Inr out, w') \<and>
         map matchId out = map matchId matchSummaries"
    if "\<forall>i w. \<exists>v w'. fetch i character realmName w = (Inr v, w')"
  proof -
    from joinLoop_total [of fetch character realmName, OF that] obtain out w' where
      "getMatchDetails fetch character realmName matchSummaries w = (Inr out, w')"
      unfolding getMatchDetails_def by blast
    with a show ?thesis by blast
  qed
  from a b show ?thesis by blast
qed

theorem getMatchDetails_preserves_order_witness:
  "(\<forall>i w. \<exists>v w'. fetchOne i ''Dumpster'' ''Icecrown'' w = (Inr v, w')) \<and>
   (\<exists>out w'. getMatchDetails fetchOne ''Dumpster'' ''Icecrown''
        [summaryOf ''C'', summaryOf ''A'', summaryOf ''B''] 0 = (Inr out, w') \<and>
      map matchId out = [''C'', ''A'', ''B''])"
proof -
  have h: "\<forall>i w. \<exists>v w'. fetchOne i ''Dumpster'' ''Icecrown'' w = (Inr v, w')"
    by (rule fetchOne_succeeds)
  from getMatchDetails_preserves_order
    [of fetchOne "''Dumpster''" "''Icecrown''" "[summaryOf ''C'', summaryOf ''A'', summaryOf ''B'']" 0,
     THEN conjunct2, THEN mp, OF h]
  obtain out w' where o: "getMatchDetails fetchOne ''Dumpster'' ''Icecrown''
        [summaryOf ''C'', summaryOf ''A'', summaryOf ''B''] 0 = (Inr out, w')"
    "map matchId out = map matchId [summaryOf ''C'', summaryOf ''A'', summaryOf ''B'']"
    by blast
  from getMatchDetails_preserves_order
    [of fetchOne "''Dumpster''" "''Icecrown''" "[summaryOf ''C'', summaryOf ''A'', summaryOf ''B'']" 0 out w',
     THEN conjunct1, THEN mp, OF o(1)]
  have "map matchId out = [''C'', ''A'', ''B'']" by (simp add: summaryOf_def)
  with h o(1) show ?thesis by auto
qed

text \<open>What the loop does on a list of identifiers in two parts, and where a failed run
  has failed.\<close>

lemma joinLoop_append:
  "joinLoop fetch c r sums (pre @ rest) acc w =
     (case joinLoop fetch c r sums pre acc w of
        (Inl e, w') \<Rightarrow> (Inl e, w')
      | (Inr acc', w') \<Rightarrow> joinLoop fetch c r sums rest acc' w')"
proof (induction pre arbitrary: acc w)
  case Nil
  show ?case by simp
next
  case (Cons i pre)
  obtain res w1 where f: "fetch i c r w = (res, w1)" by (cases "fetch i c r w")
  show ?case
  proof (cases res)
    case (Inl e)
    with f show ?thesis by simp
  next
    case (Inr cds)
    with f show ?thesis by (simp add: Cons.IH split: option.splits)
  qed
qed

lemma joinLoop_failing_call:
  assumes "joinLoop fetch c r sums pre acc w = (Inr soFar, w1)"
    and "fetch i c r w1 = (Inl e, w2)"
  shows "joinLoop fetch c r sums (pre @ i # post) acc w = (Inl e, w2)"
  using assms by (simp add: joinLoop_append)

lemma joinLoop_Inl_call:
  "fst (joinLoop fetch c r sums ids acc w) = Inl e \<Longrightarrow>
     \<exists>pre i post soFar w1. ids = pre @ i # post \<and>
        joinLoop fetch c r sums pre acc w = (Inr soFar, w1) \<and> fst (fetch i c r w1) = Inl e"
proof (induction ids arbitrary: acc w)
  case Nil
  then show ?case by simp
next
  case (Cons j ids)
  obtain res w1 where f: "fetch j c r w = (res, w1)" by (cases "fetch j c r w")
  show ?case
  proof (cases res)
    case (Inl e')
    with f Cons.prems have "e' = e" by simp
    with f Inl have "j # ids = [] @ j # ids \<and> joinLoop fetch c r sums [] acc w = (Inr acc, w) \<and>
        fst (fetch j c r w) = Inl e" by simp
    then show ?thesis by blast
  next
    case (Inr cds)
    have "\<exists>acc'. joinLoop fetch c r sums [j] acc w = (Inr acc', w1)"
      using f Inr by (cases "find (\<lambda>summary. matchId summary = j) sums") simp_all
    then obtain acc' where step: "joinLoop fetch c r sums [j] acc w = (Inr acc', w1)" ..
    have "joinLoop fetch c r sums (j # ids) acc w = joinLoop fetch c r sums ids acc' w1"
      using joinLoop_append [of fetch c r sums "[j]" ids acc w] step by simp
    with Cons.prems have "fst (joinLoop fetch c r sums ids acc' w1) = Inl e" by simp
    from Cons.IH [OF this] obtain pre i post soFar w2 where
      p: "ids = pre @ i # post" "joinLoop fetch c r sums pre acc' w1 = (Inr soFar, w2)"
         "fst (fetch i c r w2) = Inl e" by blast
    have "joinLoop fetch c r sums (j # pre) acc w = (Inr soFar, w2)"
      using joinLoop_append [of fetch c r sums "[j]" pre acc w] step p(2) by simp
    with p(1,3) have "j # ids = (j # pre) @ i # post \<and>
        joinLoop fetch c r sums (j # pre) acc w = (Inr soFar, w2) \<and> fst (fetch i c r w2) = Inl e"
      by simp
    then show ?thesis by blast
  qed
qed

text \<open>
  C3. When one call of the fetcher fails during the run (the calls before it succeeded and
  their records were already joined), \<^verbatim>\<open>getMatchDetails\<close> fails with \<^verbatim>\<open>RemoteFetchError\<close> at
  that call: it returns no list, not even the records joined before the failure, and
  makes no further call. It fails exactly when a call made in the run fails. In
  particular it fails when the fetcher fails for an identifier of the input at every call.
\<close>

theorem getMatchDetails_fetch_failure_aborts:
  "(map matchId matchSummaries = pre @ i # post \<and>
    joinLoop fetch character realmName matchSummaries pre [] w = (Inr soFar, w1) \<and>
    fetch i character realmName w1 = (Inl RemoteFetchError, w2) \<longrightarrow>
      getMatchDetails fetch character realmName matchSummaries w = (Inl RemoteFetchError, w2) \<and>
      (\<forall>out. fst (getMatchDetails fetch character realmName matchSummaries w) \<noteq> Inr out)) \<and>
   (fst (getMatchDetails fetch character realmName matchSummaries w) = Inl RemoteFetchError \<longleftrightarrow>
      (\<exists>pre i post soFar w1. map matchId matchSummaries = pre @ i # post \<and>
         joinLoop fetch character realmName matchSummaries pre [] w = (Inr soFar, w1) \<and>
         fst (fetch i character realmName w1) = Inl RemoteFetchError)) \<and>
   (i \<in> set (map matchId matchSummaries) \<and>
    (\<forall>w. fst (fetch i character realmName w) = Inl RemoteFetchError) \<longrightarrow>
      fst (getMatchDetails fetch character realmName matchSummaries w) = Inl RemoteFetchError)"
proof (intro conjI impI)
  assume a: "map matchId matchSummaries = pre @ i # post \<and>
    joinLoop fetch character realmName matchSummaries pre [] w = (Inr soFar, w1) \<and>
    fetch i character realmName w1 = (Inl RemoteFetchError, w2)"
  then have g: "getMatchDetails fetch character realmName matchSummaries w = (Inl RemoteFetchError, w2)"
    unfolding getMatchDetails_def using joinLoop_failing_call [of fetch character realmName
        matchSummaries pre "[]" w soFar w1 i RemoteFetchError w2 post] by simp
  then show "getMatchDetails fetch character realmName matchSummaries w = (Inl RemoteFetchError, w2)" .
  from g show "\<forall>out. fst (getMatchDetails fetch character realmName matchSummaries w) \<noteq> Inr out"
    by simp
next
  show "fst (getMatchDetails fetch character realmName matchSummaries w) = Inl RemoteFetchError \<longleftrightarrow>
      (\<exists>pre i post soFar w1. map matchId matchSummaries = pre @ i # post \<and>
         joinLoop fetch character realmName matchSummaries pre [] w = (Inr soFar, w1) \<and>
         fst (fetch i character realmName w1) = Inl RemoteFetchError)"
  proof
    assume "fst (getMatchDetails fetch character realmName matchSummaries w) = Inl RemoteFetchError"
    then show "\<exists>pre i post soFar w1. map matchId matchSummaries = pre @ i # post \<and>
         joinLoop fetch character realmName matchSummaries pre [] w = (Inr soFar, w1) \<and>
         fst (fetch i character realmName w1) = Inl RemoteFetchError"
      unfolding getMatchDetails_def by (rule joinLoop_Inl_call)
  next
    assume "\<exists>pre i post soFar w1. map matchId matchSummaries = pre @ i # post \<and>
         joinLoop fetch character realmName matchSummaries pre [] w = (Inr soFar, w1) \<and>
         fst (fetch i character realmName w1) = Inl RemoteFetchError"
    then obtain pre i post soFar w1 where p: "map matchId matchSummaries = pre @ i # post"
      "joinLoop fetch character realmName matchSummaries pre [] w = (Inr soFar, w1)"
      "fst (fetch i character realmName w1) = Inl RemoteFetchError" by blast
    obtain w2 where "fetch i character realmName w1 = (Inl RemoteFetchError, w2)"
      using p(3) by (cases "fetch i character realmName w1") auto
    from joinLoop_failing_call [OF p(2) this, of post]
    show "fst (getMatchDetails fetch character realmName matchSummaries w) = Inl RemoteFetchError"
      unfolding getMatchDetails_def p(1) by simp
  qed
next
  assume "i \<in> set (map matchId matchSummaries) \<and>
    (\<forall>w. fst (fetch i character realmName w) = Inl RemoteFetchError)"
  then show "fst (getMatchDetails fetch character realmName matchSummaries w) = Inl RemoteFetchError"
    unfolding getMatchDetails_def using joinLoop_Inl [of i "map matchId matchSummaries" fetch
        character realmName RemoteFetchError matchSummaries "[]" w] by blast
qed

theorem getMatchDetails_fetch_failure_aborts_witness:
  "(\<exists>soFar. joinLoop (fetchFailingCall 1) ''Dumpster'' ''Icecrown''
       [summaryOf ''A'', summaryOf ''B'', summaryOf ''C''] [''A''] [] 0 = (Inr soFar, 1) \<and>
       length soFar = 1) \<and>
   fetchFailingCall 1 ''B'' ''Dumpster'' ''Icecrown'' 1 = (Inl RemoteFetchError, 2) \<and>
   fst (fetchFailingCall 1 ''B'' ''Dumpster'' ''Icecrown'' 0) \<noteq> Inl RemoteFetchError \<and>
   getMatchDetails (fetchFailingCall 1) ''Dumpster'' ''Icecrown''
     [summaryOf ''A'', summaryOf ''B'', summaryOf ''C''] 0 = (Inl RemoteFetchError, 2) \<and>
   fst (getMatchDetails (fetchFailing ''B'') ''Dumpster'' ''Icecrown''
          [summaryOf ''A'', summaryOf ''B'', summaryOf ''C''] 0) = Inl RemoteFetchError"
proof -
  let ?sums = "[summaryOf ''A'', summaryOf ''B'', summaryOf ''C'']"
  have "\<exists>v. fetchFailingCall 1 ''A'' ''Dumpster'' ''Icecrown'' 0 = (Inr [v], 1)"
    by (simp add: fetchFailingCall_def fetchOne_def)
  then obtain v where v: "fetchFailingCall 1 ''A'' ''Dumpster'' ''Icecrown'' 0 = (Inr [v], 1)" ..
  have fA: "find (\<lambda>s. matchId s = ''A'') ?sums = Some (summaryOf ''A'')"
    by (simp add: summaryOf_def)
  obtain soFar where h1: "joinLoop (fetchFailingCall 1) ''Dumpster'' ''Icecrown'' ?sums [''A''] [] 0
      = (Inr soFar, 1)" and l: "length soFar = 1"
    using v fA by simp
  have h2: "fetchFailingCall 1 ''B'' ''Dumpster'' ''Icecrown'' 1 = (Inl RemoteFetchError, 2)"
    by (simp add: fetchFailingCall_def)
  have h3: "fst (fetchFailingCall 1 ''B'' ''Dumpster'' ''Icecrown'' 0) \<noteq> Inl RemoteFetchError"
    by (simp add: fetchFailingCall_def fetchOne_def)
  have h0: "map matchId ?sums = [''A''] @ ''B'' # [''C'']" by (simp add: summaryOf_def)
  note t = getMatchDetails_fetch_failure_aborts
    [where matchSummaries = ?sums and pre = "[''A'']" and i = "''B''" and post = "[''C'']"
       and fetch = "fetchFailingCall 1" and character = "''Dumpster''" and realmName = "''Icecrown''"
       and w = 0 and soFar = soFar and ?w1.0 = 1 and ?w2.0 = 2]
  from t h0 h1 h2 have g: "getMatchDetails (fetchFailingCall 1) ''Dumpster'' ''Icecrown'' ?sums 0
      = (Inl RemoteFetchError, 2)" by blast
  have k1: "''B'' \<in> set (map matchId ?sums)" by (simp add: summaryOf_def)
  have k2: "\<forall>w. fst (fetchFailing ''B'' ''B'' ''Dumpster'' ''Icecrown'' w) = Inl RemoteFetchError"
    by (simp add: fetchFailing_def)
  note t' = getMatchDetails_fetch_failure_aborts
    [where matchSummaries = ?sums and i = "''B''" and fetch = "fetchFailing ''B''"
       and character = "''Dumpster''" and realmName = "''Icecrown''" and w = "0::nat"]
  from t' k1 k2 have g': "fst (getMatchDetails (fetchFailing ''B'') ''Dumpster'' ''Icecrown'' ?sums 0)
      = Inl RemoteFetchError" by blast
  from h1 l h2 h3 g g' show ?thesis by blast
qed

text \<open>
  C10. When every fetch succeeds, \<^verbatim>\<open>getMatchDetails\<close> returns exactly one record for each
  input summary, duplicates of an identifier included: the identifiers are taken from the
  summaries, so the lookup of the summary always finds one and the skipping branch is
  never taken.
\<close>

theorem getMatchDetails_one_record_per_summary:
  "((\<forall>i w. \<exists>v w'. fetch i character realmName w = (Inr v, w')) \<longrightarrow>
      (\<exists>out w'. getMatchDetails fetch character realmName matchSummaries w = (Inr out, w') \<and>
         length out = length matchSummaries)) \<and>
   (getMatchDetails fetch character realmName matchSummaries w = (Inr out, w') \<longrightarrow>
      length out = length matchSummaries) \<and>
   (\<forall>i\<in>set (map matchId matchSummaries). find (\<lambda>s. matchId s = i) matchSummaries \<noteq> None)"
proof -
  have a: "length out = length matchSummaries"
    if "getMatchDetails fetch character realmName matchSummaries w = (Inr out, w')" for out w'
  proof -
    from that have "joinLoop fetch character realmName matchSummaries
        (map matchId matchSummaries) [] w = (Inr out, w')"
      by (simp add: getMatchDetails_def)
    from joinLoop_Inr [OF this] have "map matchId out =
        filter (\<lambda>i. find (\<lambda>s. matchId s = i) matchSummaries \<noteq> None) (map matchId matchSummaries)"
      by fastforce
    then have "map matchId out = map matchId matchSummaries" by (simp only: filter_found_ids)
    then show ?thesis by (metis length_map)
  qed
  have b: "\<exists>out w'. getMatchDetails fetch character realmName matchSummaries w = (Inr out, w') \<and>
         length out = length matchSummaries"
    if "\<forall>i w. \<exists>v w'. fetch i character realmName w = (Inr v, w')"
  proof -
    from joinLoop_total [of fetch character realmName, OF that] obtain out w' where
      "getMatchDetails fetch character realmName matchSummaries w = (Inr out, w')"
      unfolding getMatchDetails_def by blast
    with a show ?thesis by blast
  qed
  have c: "\<forall>i\<in>set (map matchId matchSummaries). find (\<lambda>s. matchId s = i) matchSummaries \<noteq> None"
    by (simp add: find_None_iff_matchId)
  from a b c show ?thesis by blast
qed

theorem getMatchDetails_one_record_per_summary_witness:
  "(\<forall>i w. \<exists>v w'. fetchOne i ''Dumpster'' ''Icecrown'' w = (Inr v, w')) \<and>
   (\<exists>out w'. getMatchDetails fetchOne ''Dumpster'' ''Icecrown''
        [summaryOf ''A'', summaryOf ''B'', summaryOf ''A''] 0 = (Inr out, w') \<and> length out = 3) \<and>
   find (\<lambda>s. matchId s = ''A'') [summaryOf ''A'', summaryOf ''B'', summaryOf ''A''] \<noteq> None"
proof -
  let ?sums = "[summaryOf ''A'', summaryOf ''B'', summaryOf ''A'']"
  have h: "\<forall>i w. \<exists>v w'. fetchOne i ''Dumpster'' ''Icecrown'' w = (Inr v, w')"
    by (rule fetchOne_succeeds)
  note t = getMatchDetails_one_record_per_summary [of fetchOne "''Dumpster''" "''Icecrown''" ?sums 0]
  from t [THEN conjunct1, THEN mp, OF h] obtain out w' where
    o: "getMatchDetails fetchOne ''Dumpster'' ''Icecrown'' ?sums 0 = (Inr out, w')"
       "length out = length ?sums" by blast
  from t [of out w', THEN conjunct2, THEN conjunct1, THEN mp, OF o(1)]
  have l: "length out = 3" by simp
  have "''A'' \<in> set (map matchId ?sums)" by (simp add: summaryOf_def)
  with t [THEN conjunct2, THEN conjunct2]
  have "find (\<lambda>s. matchId s = ''A'') ?sums \<noteq> None" by blast
  with h o(1) l show ?thesis by auto
qed


section \<open>Normalisation: the frame\<close>

text \<open>
  C8. Normalisation changes at most \<^verbatim>\<open>teamnamerich\<close>, \<^verbatim>\<open>matchmaking_change\<close> and
  \<^verbatim>\<open>personal_change\<close>; every other field keeps its value. A change field that is absent
  or empty stays as it is: no value is invented.
\<close>

theorem normalize_frame:
  "realm (normalize cd) = realm cd \<and> charname (normalize cd) = charname cd \<and>
   class' (normalize cd) = class' cd \<and> race (normalize cd) = race cd \<and>
   gender (normalize cd) = gender cd \<and> teamname (normalize cd) = teamname cd \<and>
   damageDone (normalize cd) = damageDone cd \<and> deaths (normalize cd) = deaths cd \<and>
   healingDone (normalize cd) = healingDone cd \<and> killingBlows (normalize cd) = killingBlows cd \<and>
   normalize cd = cd\<lparr>teamnamerich := teamnamerich (normalize cd),
                      matchmaking_change := matchmaking_change (normalize cd),
                      personal_change := personal_change (normalize cd)\<rparr> \<and>
   (matchmaking_change cd = None \<longrightarrow> matchmaking_change (normalize cd) = None) \<and>
   (matchmaking_change cd = Some [] \<longrightarrow> matchmaking_change (normalize cd) = Some []) \<and>
   (personal_change cd = [] \<longrightarrow> personal_change (normalize cd) = [])"
  by (simp add: normalize_def Let_def split: option.splits)

theorem normalize_frame_witness:
  "matchmaking_change rawDetail = None \<and> matchmaking_change (normalize rawDetail) = None \<and>
   matchmaking_change (normalize (rawDetail\<lparr>matchmaking_change := Some [], personal_change := []\<rparr>))
     = Some [] \<and>
   personal_change (normalize (rawDetail\<lparr>matchmaking_change := Some [], personal_change := []\<rparr>))
     = [] \<and>
   killingBlows (normalize rawDetail) = ''2''"
  using normalize_frame [of rawDetail]
    normalize_frame [of "rawDetail\<lparr>matchmaking_change := Some [], personal_change := []\<rparr>"]
  by (simp add: rawDetail_def)


section \<open>The matcher on the four literals\<close>

lemma startsWith_simps [simp]:
  "startsWith [] s" "\<not> startsWith (c # l) []"
  "startsWith (c # l) (x # xs) \<longleftrightarrow> x = c \<and> startsWith l xs"
  "startsWith l (l @ r)"
  by (auto simp: startsWith_def)

lemma startsWith_iff: "startsWith l s \<longleftrightarrow> (\<exists>r. s = l @ r)"
  unfolding startsWith_def by (metis append_eq_conv_conj)

lemma matcher_run: "matcher r st = run r st (\<lambda>st'. [st'])"
  by (simp add: run_def)

lemma matcher_Star_Atom:
  "matcher (Star (Atom a)) (s, cs) = map (\<lambda>t. (t, cs)) (greedyTails (accepts a) s)"
proof (induction s)
  case Nil
  show ?case by (subst matcher.simps(6)) simp
next
  case (Cons x xs)
  show ?case by (subst matcher.simps(6)) (simp add: Cons)
qed

lemma matcher_Lazy_Atom:
  "matcher (Lazy (Atom a)) (s, cs) = map (\<lambda>t. (t, cs)) (lazyTails (accepts a) s)"
proof (induction s)
  case Nil
  show ?case by (subst matcher.simps(7)) simp
next
  case (Cons x xs)
  show ?case by (subst matcher.simps(7)) (simp add: Cons)
qed

lemma concat_greedyTails:
  assumes "\<And>x xs. p x \<Longrightarrow> g (x # xs) = []"
  shows "concat (map g (greedyTails p s)) = g (dropWhile p s)"
  using assms by (induction s) simp_all

lemma concat_map_concat: "concat (map f (concat xss)) = concat (map (\<lambda>xs. concat (map f xs)) xss)"
  by (induction xss) simp_all

lemma run_Eps: "run Eps st k = k st"
  by (simp add: run_def)

lemma run_Atom:
  "run (Atom a) ([], cs) k = []"
  "run (Atom a) (x # xs, cs) k = (if accepts a x then k (xs, cs) else [])"
  by (simp_all add: run_def)

lemma run_Atom_case:
  "run (Atom a) (s, cs) k =
     (case s of [] \<Rightarrow> [] | x # xs \<Rightarrow> if accepts a x then k (xs, cs) else [])"
  by (cases s) (simp_all add: run_Atom)

lemma run_Cat: "run (Cat r1 r2) st k = run r1 st (\<lambda>st'. run r2 st' k)"
  by (simp add: run_def concat_map_concat o_def)

lemma run_Alt: "run (Alt r1 r2) st k = run r1 st k @ run r2 st k"
  by (simp add: run_def)

lemma run_Opt: "run (Opt (Atom a)) (s, cs) k = run (Atom a) (s, cs) k @ k (s, cs)"
  by (cases s) (simp_all add: run_def)

lemma run_Group:
  "run (Group n r) (s, cs) k =
     run r (s, cs) (\<lambda>st'. k (fst st', (snd st')(n \<mapsto> take (length s - length (fst st')) s)))"
  by (simp add: run_def o_def)

lemma run_Ahead:
  "run (Ahead r) (s, cs) k =
     (if run r (s, cs) (\<lambda>st'. [st']) = [] then []
      else k (s, snd (hd (run r (s, cs) (\<lambda>st'. [st'])))))"
  by (simp add: run_def split: list.splits)

lemma run_Star_Atom:
  "\<forall>x xs. k (x # xs, cs) \<noteq> [] \<longrightarrow> \<not> accepts a x \<Longrightarrow>
     run (Star (Atom a)) (s, cs) k = k (dropWhile (accepts a) s, cs)"
  unfolding run_def matcher_Star_Atom map_map o_def
  by (rule concat_greedyTails [where g = "\<lambda>t. k (t, cs)"]) blast

lemma run_Plus_Atom:
  "run (Plus (Atom a)) ([], cs) k = []"
  "\<forall>x xs. k (x # xs, cs) \<noteq> [] \<longrightarrow> \<not> accepts a x \<Longrightarrow>
     run (Plus (Atom a)) (x # xs, cs) k =
       (if accepts a x then k (dropWhile (accepts a) xs, cs) else [])"
  by (simp_all add: Plus_def run_Cat run_Atom run_Star_Atom)

lemma run_Plus_Atom_reject:
  "\<not> accepts a x \<Longrightarrow> run (Plus (Atom a)) (x # xs, cs) k = []"
  by (simp add: Plus_def run_Cat run_Atom)

lemma run_Lazy_Atom:
  "run (Lazy (Atom a)) (s, cs) k = concat (map (\<lambda>t. k (t, cs)) (lazyTails (accepts a) s))"
  by (simp add: run_def matcher_Lazy_Atom o_def)

lemma run_lits:
  "run (lits l) (s, cs) k = (if startsWith l s then k (drop (length l) s, cs) else [])"
proof (induction l arbitrary: s)
  case Nil
  show ?case by (simp add: run_Eps)
next
  case (Cons c l)
  show ?case by (cases s) (simp_all add: run_Cat run_Atom Cons)
qed

declare lits.simps [simp del]

lemmas run_simps = run_Eps run_Atom run_Cat run_Alt run_Opt run_Group run_Ahead run_Star_Atom
  run_Plus_Atom run_lits

lemma accepts_eta:
  "accepts (NotLit c) = (\<lambda>x. x \<noteq> c)" "accepts Digit = isDigit" "accepts Space = isSpace"
  by (rule ext, simp)+

lemma dropWhile_neq_Cons: "dropWhile (\<lambda>c. c \<noteq> a) t = z # rest \<Longrightarrow> z = a"
  using hd_dropWhile [of "\<lambda>c. c \<noteq> a" t] by auto

lemma not_isDigit [simp]:
  "\<not> isDigit CHR ''<''" "\<not> isDigit CHR ''v''" "\<not> isDigit CHR ''(''" "\<not> isDigit CHR '')''"
  "\<not> isDigit CHR ''-''" "\<not> isDigit CHR ''+''" "\<not> isDigit CHR '' ''"
  by (simp_all add: isDigit_def)

lemma not_isSpace [simp]:
  "\<not> isSpace CHR ''(''" "\<not> isSpace CHR ''<''"
  by (simp_all add: isSpace_def)

lemma isSpace_not_isDigit: "isSpace c \<Longrightarrow> \<not> isDigit c"
  by (auto simp: isSpace_def isDigit_def)

lemma run_tagRegex:
  "run tagRegex (s, cs) k = (case tagEnd s of None \<Rightarrow> [] | Some rest \<Rightarrow> k (rest, cs))"
proof (cases s)
  case Nil
  then show ?thesis by (simp add: tagRegex_def run_simps)
next
  case s: (Cons x xs)
  show ?thesis
  proof (cases xs)
    case Nil
    with s show ?thesis by (simp add: tagRegex_def run_simps)
  next
    case xs: (Cons y t)
    show ?thesis
    proof (cases "dropWhile (\<lambda>c. c \<noteq> CHR ''>'') t")
      case Nil
      show ?thesis unfolding s xs
        by (simp add: tagRegex_def run_simps accepts_eta Nil)
    next
      case (Cons z rest)
      then have "z = CHR ''>''" by (rule dropWhile_neq_Cons)
      then show ?thesis unfolding s xs
        by (simp add: tagRegex_def run_simps accepts_eta Cons)
    qed
  qed
qed

lemma take_length_dropWhile: "take (length t - length (dropWhile p t)) t = takeWhile p t"
  by (induction t) (simp_all add: Suc_diff_le length_dropWhile_le)

lemma consumed1: "take (Suc (length t) - length (dropWhile p t)) (a # t) = a # takeWhile p t"
  by (simp add: Suc_diff_le length_dropWhile_le take_length_dropWhile)

lemma consumed2:
  "take (Suc (Suc (length t)) - length (dropWhile p t)) (a # b # t) = a # b # takeWhile p t"
  by (simp add: Suc_diff_le length_dropWhile_le le_SucI take_length_dropWhile)

lemma run_changeRegex:
  "run changeRegex (sg # d # t, cs) k =
     (if (sg = CHR ''+'' \<or> sg = CHR ''-'') \<and> isDigit d \<and> startsWith ''</span'' (dropWhile isDigit t)
      then k (dropWhile isDigit t, cs(2 \<mapsto> [sg], 1 \<mapsto> sg # d # takeWhile isDigit t))
      else [])"
proof -
  have plus: "run (Plus (Atom Digit)) (d # t, c)
        (\<lambda>st'. run (Ahead (lits ''</span''))
           (fst st', (snd st')(Suc 0 \<mapsto> take (Suc (Suc (length t)) - length (fst st')) (g # d # t))) k)
      = (if isDigit d \<and> startsWith ''</span'' (dropWhile isDigit t)
         then k (dropWhile isDigit t, c(Suc 0 \<mapsto> g # d # takeWhile isDigit t)) else [])" for c g
    apply (subst run_Plus_Atom(2))
     apply (auto simp: run_Ahead run_lits)[1]
    apply (simp add: run_Ahead run_lits accepts_eta consumed2)
    done
  show ?thesis
    by (simp add: changeRegex_def run_Cat run_Group run_Alt run_Atom plus)
qed

lemma run_changeRegex_short:
  "run changeRegex ([], cs) k = []" "run changeRegex ([sg], cs) k = []"
  by (simp_all add: changeRegex_def run_Cat run_Group run_Alt run_Atom run_Plus_Atom)

lemma run_spanAhead:
  "run (Ahead (Cat (Star (Atom Space)) (lits ''(<span''))) (s, cs) k =
     (if startsWith ''(<span'' (dropWhile isSpace s) then k (s, cs) else [])"
proof -
  have "run (Star (Atom Space)) (s, cs) (\<lambda>st'. run (lits ''(<span'') st' (\<lambda>st'. [st']))
      = run (lits ''(<span'') (dropWhile isSpace s, cs) (\<lambda>st'. [st'])"
    apply (subst run_Star_Atom)
     apply (auto simp: run_lits accepts_eta)
    done
  then show ?thesis
    by (simp add: run_Ahead run_Cat run_lits)
qed

lemma run_overallRegex_digits:
  "run (Plus (Atom Digit)) (d # t, c)
        (\<lambda>st'. run (Ahead (Cat (Star (Atom Space)) (lits ''(<span'')))
           (fst st', (snd st')(Suc 0 \<mapsto> take (n - length (fst st')) whole)) k)
      = (if isDigit d \<and> startsWith ''(<span'' (dropWhile isSpace (dropWhile isDigit t))
         then k (dropWhile isDigit t, c(Suc 0 \<mapsto> take (n - length (dropWhile isDigit t)) whole)) else [])"
  apply (subst run_Plus_Atom(2))
   apply (auto simp: run_spanAhead accepts_eta dest: isSpace_not_isDigit)[1]
  apply (simp add: run_spanAhead accepts_eta)
  done

lemma run_overallRegex:
  "run overallRegex (x # t, cs) k =
     (if x = CHR ''-'' then
        (case t of [] \<Rightarrow> []
         | d # u \<Rightarrow>
            if isDigit d \<and> startsWith ''(<span'' (dropWhile isSpace (dropWhile isDigit u))
            then k (dropWhile isDigit u, cs(1 \<mapsto> x # d # takeWhile isDigit u)) else [])
      else if isDigit x \<and> startsWith ''(<span'' (dropWhile isSpace (dropWhile isDigit t))
      then k (dropWhile isDigit t, cs(1 \<mapsto> x # takeWhile isDigit t)) else [])"
  apply (cases t)
  apply (simp_all add: overallRegex_def run_Cat run_Group run_Opt run_Atom run_overallRegex_digits
      run_Plus_Atom_reject run_Plus_Atom(1) consumed1 consumed2)
  done

lemma run_overallRegex_Nil: "run overallRegex ([], cs) k = []"
  by (simp add: overallRegex_def run_Cat run_Group run_Opt run_Atom run_Plus_Atom(1))

lemma run_Star_then_Lit:
  "\<not> accepts a c \<Longrightarrow>
     run (Star (Atom a)) (s, cs) (\<lambda>st. run (Atom (Lit c)) st K)
       = run (Atom (Lit c)) (dropWhile (accepts a) s, cs) K"
  by (subst run_Star_Atom) (auto simp: run_Atom)

lemma run_Plus_then_Lit:
  "\<not> accepts a c \<Longrightarrow>
     run (Plus (Atom a)) (x # xs, cs) (\<lambda>st. run (Atom (Lit c)) st K)
       = (if accepts a x then run (Atom (Lit c)) (dropWhile (accepts a) xs, cs) K else [])"
  by (subst run_Plus_Atom(2)) (auto simp: run_Atom)

lemma run_Plus_then_Lit_upd:
  "\<not> accepts a c \<Longrightarrow>
     run (Plus (Atom a)) (x # xs, cs) (\<lambda>st. run (Atom (Lit c)) (fst st, F st) K)
       = (if accepts a x
          then run (Atom (Lit c)) (dropWhile (accepts a) xs, F (dropWhile (accepts a) xs, cs)) K
          else [])"
  by (subst run_Plus_Atom(2)) (auto simp: run_Atom)

lemma dropWhile_all: "\<forall>x\<in>set xs. P x \<Longrightarrow> dropWhile P xs = []"
  by simp

lemma run_bracketTail:
  "\<exists>c'. run bracketTail (s, cs) k = (case bracketAt s of None \<Rightarrow> [] | Some rest \<Rightarrow> k (rest, c'))"
  apply (simp add: bracketTail_def bracketAt_def run_Cat run_Group)
  apply (auto simp add: run_Atom run_Cat run_Group run_Plus_then_Lit_upd run_Plus_then_Lit run_Plus_Atom(1) accepts_eta dropWhile_all split: list.splits)
  done

lemma str_match_Some_iff:
  "str_match s r \<noteq> None \<longleftrightarrow> (\<exists>pre suf. s = pre @ suf \<and> matcher r (suf, Map.empty) \<noteq> [])"
proof (induction s)
  case Nil
  show ?case by (simp split: list.splits)
next
  case (Cons x xs)
  show ?case
  proof (cases "matcher r (x # xs, Map.empty)")
    case Nil
    then have "str_match (x # xs) r \<noteq> None \<longleftrightarrow> str_match xs r \<noteq> None" by simp
    also have "\<dots> \<longleftrightarrow> (\<exists>pre suf. xs = pre @ suf \<and> matcher r (suf, Map.empty) \<noteq> [])"
      by (rule Cons.IH)
    also have "\<dots> \<longleftrightarrow> (\<exists>pre suf. x # xs = pre @ suf \<and> matcher r (suf, Map.empty) \<noteq> [])"
    proof
      assume "\<exists>pre suf. xs = pre @ suf \<and> matcher r (suf, Map.empty) \<noteq> []"
      then obtain pre suf where "xs = pre @ suf" "matcher r (suf, Map.empty) \<noteq> []" by blast
      then have "x # xs = (x # pre) @ suf \<and> matcher r (suf, Map.empty) \<noteq> []" by simp
      then show "\<exists>pre suf. x # xs = pre @ suf \<and> matcher r (suf, Map.empty) \<noteq> []" by blast
    next
      assume "\<exists>pre suf. x # xs = pre @ suf \<and> matcher r (suf, Map.empty) \<noteq> []"
      then obtain pre suf where ps: "x # xs = pre @ suf" "matcher r (suf, Map.empty) \<noteq> []" by blast
      show "\<exists>pre suf. xs = pre @ suf \<and> matcher r (suf, Map.empty) \<noteq> []"
      proof (cases pre)
        case Nil
        with ps \<open>matcher r (x # xs, Map.empty) = []\<close> show ?thesis by simp
      next
        case (Cons y pre')
        with ps have "xs = pre' @ suf" by simp
        with ps(2) show ?thesis by blast
      qed
    qed
    finally show ?thesis .
  next
    case (Cons st' rest)
    then have "str_match (x # xs) r \<noteq> None" by simp
    moreover have "x # xs = [] @ (x # xs) \<and> matcher r (x # xs, Map.empty) \<noteq> []"
      using Cons by simp
    ultimately show ?thesis by blast
  qed
qed

lemma takeWhile_dropWhile_digits:
  "\<forall>c\<in>set ds. p c \<Longrightarrow> rest = [] \<or> \<not> p (hd rest) \<Longrightarrow>
     takeWhile p (ds @ rest) = ds \<and> dropWhile p (ds @ rest) = rest"
  by (cases rest) simp_all

lemma matcher_changeRegex_iff:
  "matcher changeRegex (s, cs) \<noteq> [] \<longleftrightarrow>
     (\<exists>sg ds post. s = sg # ds @ ''</span'' @ post \<and> (sg = CHR ''+'' \<or> sg = CHR ''-'') \<and>
        ds \<noteq> [] \<and> (\<forall>c\<in>set ds. isDigit c))"
  (is "?L \<longleftrightarrow> ?R")
proof
  assume ?L
  then obtain sg d t where s: "s = sg # d # t"
    by (cases s; cases "tl s") (auto simp: matcher_run run_changeRegex_short)
  with \<open>?L\<close> have c: "sg = CHR ''+'' \<or> sg = CHR ''-''" "isDigit d"
      "startsWith ''</span'' (dropWhile isDigit t)"
    by (auto simp: matcher_run run_changeRegex split: if_splits)
  from c(3) obtain post where "dropWhile isDigit t = ''</span'' @ post"
    unfolding startsWith_iff by blast
  then have "t = takeWhile isDigit t @ ''</span'' @ post"
    by (metis takeWhile_dropWhile_id)
  then have "s = sg # (d # takeWhile isDigit t) @ ''</span'' @ post" using s by simp
  moreover have "\<forall>c\<in>set (d # takeWhile isDigit t). isDigit c"
    using c(2) by (auto dest: set_takeWhileD)
  ultimately show ?R using c(1) by blast
next
  assume ?R
  then obtain sg ds post where r: "s = sg # ds @ ''</span'' @ post"
    "sg = CHR ''+'' \<or> sg = CHR ''-''" "ds \<noteq> []" "\<forall>c\<in>set ds. isDigit c" by blast
  from r(3) obtain d ds' where ds: "ds = d # ds'" by (cases ds) auto
  with r(4) have "dropWhile isDigit (ds' @ ''</span'' @ post) = ''</span'' @ post"
    using takeWhile_dropWhile_digits [of ds' isDigit "''</span'' @ post"] by simp
  with r ds show ?L
    by (auto simp: matcher_run run_changeRegex)
qed


lemma dropWhile_suffix: "\<exists>pre. s = pre @ dropWhile p s \<and> (\<forall>c\<in>set pre. p c)"
  by (metis takeWhile_dropWhile_id set_takeWhileD)

lemma matcher_overallRegex_iff:
  "matcher overallRegex (s, cs) \<noteq> [] \<longleftrightarrow>
     (\<exists>m ds ws post. s = m @ ds @ ws @ ''(<span'' @ post \<and> (m = [] \<or> m = ''-'') \<and>
        ds \<noteq> [] \<and> (\<forall>c\<in>set ds. isDigit c) \<and> (\<forall>c\<in>set ws. isSpace c))"
  (is "?L \<longleftrightarrow> ?R")
proof
  assume l: ?L
  then obtain x t where s: "s = x # t"
    by (cases s) (auto simp: matcher_run run_overallRegex_Nil)
  show ?R
  proof (cases "x = CHR ''-''")
    case True
    with l s obtain d u where t: "t = d # u" and d: "isDigit d"
      and sw: "startsWith ''(<span'' (dropWhile isSpace (dropWhile isDigit u))"
      by (cases t) (auto simp: matcher_run run_overallRegex split: if_splits)
    from sw obtain post where p: "dropWhile isSpace (dropWhile isDigit u) = ''(<span'' @ post"
      unfolding startsWith_iff by blast
    have "u = takeWhile isDigit u @ takeWhile isSpace (dropWhile isDigit u) @ ''(<span'' @ post"
      by (metis p takeWhile_dropWhile_id)
    then have "s = ''-'' @ (d # takeWhile isDigit u) @ takeWhile isSpace (dropWhile isDigit u)
        @ ''(<span'' @ post"
      using s t True by simp
    moreover have "\<forall>c\<in>set (d # takeWhile isDigit u). isDigit c"
      using d by (auto dest: set_takeWhileD)
    moreover have "\<forall>c\<in>set (takeWhile isSpace (dropWhile isDigit u)). isSpace c"
      by (auto dest: set_takeWhileD)
    ultimately show ?thesis by blast
  next
    case False
    with l s have d: "isDigit x"
      and sw: "startsWith ''(<span'' (dropWhile isSpace (dropWhile isDigit t))"
      by (auto simp: matcher_run run_overallRegex split: if_splits)
    from sw obtain post where p: "dropWhile isSpace (dropWhile isDigit t) = ''(<span'' @ post"
      unfolding startsWith_iff by blast
    have "t = takeWhile isDigit t @ takeWhile isSpace (dropWhile isDigit t) @ ''(<span'' @ post"
      by (metis p takeWhile_dropWhile_id)
    then have "s = [] @ (x # takeWhile isDigit t) @ takeWhile isSpace (dropWhile isDigit t)
        @ ''(<span'' @ post"
      using s by simp
    moreover have "\<forall>c\<in>set (x # takeWhile isDigit t). isDigit c"
      using d by (auto dest: set_takeWhileD)
    moreover have "\<forall>c\<in>set (takeWhile isSpace (dropWhile isDigit t)). isSpace c"
      by (auto dest: set_takeWhileD)
    ultimately show ?thesis by blast
  qed
next
  assume ?R
  then obtain m ds ws post where r: "s = m @ ds @ ws @ ''(<span'' @ post" "m = [] \<or> m = ''-''"
    "ds \<noteq> []" "\<forall>c\<in>set ds. isDigit c" "\<forall>c\<in>set ws. isSpace c" by blast
  from r(3) obtain d ds' where ds: "ds = d # ds'" by (cases ds) auto
  have nd: "ws @ ''(<span'' @ post = [] \<or> \<not> isDigit (hd (ws @ ''(<span'' @ post))"
    using r(5) by (cases ws) (auto dest: isSpace_not_isDigit)
  have dd: "dropWhile isDigit (ds' @ ws @ ''(<span'' @ post) = ws @ ''(<span'' @ post"
    using takeWhile_dropWhile_digits [of ds' isDigit "ws @ ''(<span'' @ post"] nd r(4) ds by simp
  have dw: "dropWhile isSpace (ws @ ''(<span'' @ post) = ''(<span'' @ post"
    using takeWhile_dropWhile_digits [of ws isSpace "''(<span'' @ post"] r(5) by simp
  from r(2) show ?L
  proof
    assume "m = []"
    with r(1) ds r(4) dd dw show ?L
      by (auto simp: matcher_run run_overallRegex)
  next
    assume "m = ''-''"
    with r(1) ds r(4) dd dw show ?L
      by (auto simp: matcher_run run_overallRegex)
  qed
qed


lemma str_match_SomeD:
  "str_match s r = Some (m, c) \<Longrightarrow>
     \<exists>pre suf rest more. s = pre @ suf \<and> matcher r (suf, Map.empty) = (rest, c) # more \<and>
        m = take (length suf - length rest) suf"
proof (induction s)
  case Nil
  then show ?case by (auto split: list.splits)
next
  case (Cons x xs)
  show ?case
  proof (cases "matcher r (x # xs, Map.empty)")
    case Nil
    with Cons.prems have "str_match xs r = Some (m, c)" by simp
    from Cons.IH [OF this] obtain pre suf rest more where
      "xs = pre @ suf" "matcher r (suf, Map.empty) = (rest, c) # more"
      "m = take (length suf - length rest) suf" by blast
    then have "x # xs = (x # pre) @ suf \<and> matcher r (suf, Map.empty) = (rest, c) # more \<and>
        m = take (length suf - length rest) suf" by simp
    then show ?thesis by blast
  next
    case (Cons st' more)
    obtain rest c' where st': "st' = (rest, c')" by (cases st')
    with Cons Cons.prems have "m = take (length (x # xs) - length rest) (x # xs)" "c' = c"
      by auto
    with Cons st' have "x # xs = [] @ (x # xs) \<and>
        matcher r (x # xs, Map.empty) = (rest, c) # more \<and>
        m = take (length (x # xs) - length rest) (x # xs)" by simp
    then show ?thesis by blast
  qed
qed

lemma str_match_changeRegex_SomeD:
  assumes "str_match raw changeRegex = Some (m, c)"
  shows "\<exists>pre sg ds post. raw = pre @ m @ ''</span'' @ post \<and> m = sg # ds \<and>
           (sg = CHR ''+'' \<or> sg = CHR ''-'') \<and> ds \<noteq> [] \<and> (\<forall>c\<in>set ds. isDigit c)"
proof -
  from str_match_SomeD [OF assms] obtain pre suf rest more where
    p: "raw = pre @ suf" "matcher changeRegex (suf, Map.empty) = (rest, c) # more"
       "m = take (length suf - length rest) suf" by blast
  from p(2) obtain sg d t where s: "suf = sg # d # t"
    by (cases suf; cases "tl suf") (auto simp: matcher_run run_changeRegex_short)
  with p(2) have c: "sg = CHR ''+'' \<or> sg = CHR ''-''" "isDigit d"
      "startsWith ''</span'' (dropWhile isDigit t)" "rest = dropWhile isDigit t"
    by (auto simp: matcher_run run_changeRegex split: if_splits)
  from c(3) obtain post where post: "dropWhile isDigit t = ''</span'' @ post"
    unfolding startsWith_iff by blast
  have m: "m = sg # d # takeWhile isDigit t"
    using p(3) s c(4) by (simp add: consumed2)
  have "t = takeWhile isDigit t @ ''</span'' @ post"
    by (metis post takeWhile_dropWhile_id)
  then have "raw = pre @ m @ ''</span'' @ post" using p(1) s m by simp
  moreover have "\<forall>c\<in>set (d # takeWhile isDigit t). isDigit c"
    using c(2) by (auto dest: set_takeWhileD)
  ultimately show ?thesis using m c(1) by blast
qed

lemma str_match_overallRegex_SomeD:
  assumes "str_match raw overallRegex = Some (m, c)"
  shows "\<exists>pre mi ds ws post. raw = pre @ m @ ws @ ''(<span'' @ post \<and> m = mi @ ds \<and>
           (mi = [] \<or> mi = ''-'') \<and> ds \<noteq> [] \<and> (\<forall>c\<in>set ds. isDigit c) \<and>
           (\<forall>c\<in>set ws. isSpace c)"
proof -
  from str_match_SomeD [OF assms] obtain pre suf rest more where
    p: "raw = pre @ suf" "matcher overallRegex (suf, Map.empty) = (rest, c) # more"
       "m = take (length suf - length rest) suf" by blast
  from p(2) obtain x t where s: "suf = x # t"
    by (cases suf) (auto simp: matcher_run run_overallRegex_Nil)
  show ?thesis
  proof (cases "x = CHR ''-''")
    case True
    with p(2) s obtain d u where t: "t = d # u" and d: "isDigit d"
      and sw: "startsWith ''(<span'' (dropWhile isSpace (dropWhile isDigit u))"
      and rest: "rest = dropWhile isDigit u"
      by (cases t) (auto simp: matcher_run run_overallRegex split: if_splits)
    from sw obtain post where post: "dropWhile isSpace (dropWhile isDigit u) = ''(<span'' @ post"
      unfolding startsWith_iff by blast
    have m: "m = ''-'' @ (d # takeWhile isDigit u)"
      using p(3) s t rest True by (simp add: consumed2)
    have "u = takeWhile isDigit u @ takeWhile isSpace (dropWhile isDigit u) @ ''(<span'' @ post"
      by (metis post takeWhile_dropWhile_id)
    then have "raw = pre @ m @ takeWhile isSpace (dropWhile isDigit u) @ ''(<span'' @ post"
      using p(1) s t m True by simp
    moreover have "\<forall>c\<in>set (d # takeWhile isDigit u). isDigit c"
      using d by (auto dest: set_takeWhileD)
    moreover have "\<forall>c\<in>set (takeWhile isSpace (dropWhile isDigit u)). isSpace c"
      by (auto dest: set_takeWhileD)
    ultimately show ?thesis using m by blast
  next
    case False
    with p(2) s have d: "isDigit x"
      and sw: "startsWith ''(<span'' (dropWhile isSpace (dropWhile isDigit t))"
      and rest: "rest = dropWhile isDigit t"
      by (auto simp: matcher_run run_overallRegex split: if_splits)
    from sw obtain post where post: "dropWhile isSpace (dropWhile isDigit t) = ''(<span'' @ post"
      unfolding startsWith_iff by blast
    have m: "m = [] @ (x # takeWhile isDigit t)"
      using p(3) s rest by (simp add: consumed1)
    have "t = takeWhile isDigit t @ takeWhile isSpace (dropWhile isDigit t) @ ''(<span'' @ post"
      by (metis post takeWhile_dropWhile_id)
    then have "raw = pre @ m @ takeWhile isSpace (dropWhile isDigit t) @ ''(<span'' @ post"
      using p(1) s m by simp
    moreover have "\<forall>c\<in>set (x # takeWhile isDigit t). isDigit c"
      using d by (auto dest: set_takeWhileD)
    moreover have "\<forall>c\<in>set (takeWhile isSpace (dropWhile isDigit t)). isSpace c"
      by (auto dest: set_takeWhileD)
    ultimately show ?thesis using m by blast
  qed
qed


lemma str_match_skip:
  "(\<And>q p. pre = q @ p \<Longrightarrow> p \<noteq> [] \<Longrightarrow> matcher r (p @ s, Map.empty) = []) \<Longrightarrow>
     str_match (pre @ s) r = str_match s r"
proof (induction pre)
  case Nil
  show ?case by simp
next
  case (Cons x pre)
  have "matcher r ((x # pre) @ s, Map.empty) = []"
    by (rule Cons.prems [of "[]"]) simp_all
  then have "str_match ((x # pre) @ s) r = str_match (pre @ s) r" by simp
  also have "\<dots> = str_match s r"
  proof (rule Cons.IH)
    fix q p assume "pre = q @ p" "p \<noteq> []"
    then show "matcher r (p @ s, Map.empty) = []"
      using Cons.prems [of "x # q" p] by simp
  qed
  finally show ?case .
qed

lemma str_match_here:
  "matcher r (a @ b, Map.empty) = (b, c) # others \<Longrightarrow> a \<noteq> [] \<Longrightarrow>
     str_match (a @ b) r = Some (a, c)"
  by (cases a) simp_all

lemma not_lt_digit_sign:
  "isDigit c \<Longrightarrow> c \<noteq> CHR ''<''" "isDigit c \<Longrightarrow> c \<noteq> CHR ''>''"
  by (auto simp: isDigit_def)

lemma str_match_change_here:
  assumes "sg = CHR ''+'' \<or> sg = CHR ''-''" "es \<noteq> []" "\<forall>c\<in>set es. isDigit c"
  shows "\<exists>c. str_match (sg # es @ ''</span'' @ post) changeRegex = Some (sg # es, c)"
proof -
  from assms(2) obtain d es' where es: "es = d # es'" by (cases es) auto
  have dd: "dropWhile isDigit (es' @ ''</span'' @ post) = ''</span'' @ post"
    "takeWhile isDigit (es' @ ''</span'' @ post) = es'"
    using takeWhile_dropWhile_digits [of es' isDigit "''</span'' @ post"] assms(3) es by simp_all
  have "matcher changeRegex ((sg # es) @ ''</span'' @ post, Map.empty)
      = [(''</span'' @ post, [2 \<mapsto> [sg], 1 \<mapsto> sg # es])]"
    using assms(1,3) es dd by (auto simp: matcher_run run_changeRegex)
  from str_match_here [OF this] show ?thesis by simp
qed

lemma str_match_overall_here:
  assumes "mi = [] \<or> mi = ''-''" "ds \<noteq> []" "\<forall>c\<in>set ds. isDigit c" "\<forall>c\<in>set ws. isSpace c"
  shows "\<exists>c. str_match (mi @ ds @ ws @ ''(<span'' @ post) overallRegex = Some (mi @ ds, c)"
proof -
  from assms(2) obtain d ds' where ds: "ds = d # ds'" by (cases ds) auto
  have nd: "ws @ ''(<span'' @ post = [] \<or> \<not> isDigit (hd (ws @ ''(<span'' @ post))"
    using assms(4) by (cases ws) (auto dest: isSpace_not_isDigit)
  have dd: "dropWhile isDigit (ds' @ ws @ ''(<span'' @ post) = ws @ ''(<span'' @ post"
    "takeWhile isDigit (ds' @ ws @ ''(<span'' @ post) = ds'"
    using takeWhile_dropWhile_digits [of ds' isDigit "ws @ ''(<span'' @ post"] nd assms(3) ds
    by simp_all
  have dw: "dropWhile isSpace (ws @ ''(<span'' @ post) = ''(<span'' @ post"
    using takeWhile_dropWhile_digits [of ws isSpace "''(<span'' @ post"] assms(4) by simp
  have "matcher overallRegex ((mi @ ds) @ ws @ ''(<span'' @ post, Map.empty)
      = [(ws @ ''(<span'' @ post, [1 \<mapsto> mi @ ds])]"
    using assms(1,3) ds dd dw by (auto simp: matcher_run run_overallRegex)
  from str_match_here [OF this] assms(2) show ?thesis by simp
qed

lemma str_match_Some_leftmost:
  "str_match s r = Some (m, c) \<Longrightarrow>
     \<exists>pre suf rest others. s = pre @ suf \<and> matcher r (suf, Map.empty) = (rest, c) # others \<and>
        m = take (length suf - length rest) suf \<and>
        (\<forall>q p. pre = q @ p \<and> p \<noteq> [] \<longrightarrow> matcher r (p @ suf, Map.empty) = [])"
proof (induction s)
  case Nil
  then show ?case by (auto split: list.splits)
next
  case (Cons x xs)
  show ?case
  proof (cases "matcher r (x # xs, Map.empty)")
    case Nil
    with Cons.prems have "str_match xs r = Some (m, c)" by simp
    from Cons.IH [OF this] obtain pre suf rest others where
      p: "xs = pre @ suf" "matcher r (suf, Map.empty) = (rest, c) # others"
      "m = take (length suf - length rest) suf"
      "\<forall>q p. pre = q @ p \<and> p \<noteq> [] \<longrightarrow> matcher r (p @ suf, Map.empty) = []" by blast
    have "\<forall>q p. x # pre = q @ p \<and> p \<noteq> [] \<longrightarrow> matcher r (p @ suf, Map.empty) = []"
    proof (intro allI impI)
      fix q p assume a: "x # pre = q @ p \<and> p \<noteq> []"
      show "matcher r (p @ suf, Map.empty) = []"
      proof (cases q)
        case Nil
        with a have "p @ suf = x # xs" using p(1) by simp
        with \<open>matcher r (x # xs, Map.empty) = []\<close> show ?thesis by simp
      next
        case (Cons y q')
        with a have "pre = q' @ p \<and> p \<noteq> []" by simp
        with p(4) show ?thesis by blast
      qed
    qed
    with p(1-3) have "x # xs = (x # pre) @ suf \<and> matcher r (suf, Map.empty) = (rest, c) # others \<and>
        m = take (length suf - length rest) suf \<and>
        (\<forall>q p. x # pre = q @ p \<and> p \<noteq> [] \<longrightarrow> matcher r (p @ suf, Map.empty) = [])" by simp
    then show ?thesis by blast
  next
    case (Cons st' others)
    obtain rest c' where st': "st' = (rest, c')" by (cases st')
    with Cons Cons.prems have "m = take (length (x # xs) - length rest) (x # xs)" "c' = c"
      by auto
    with Cons st' have "x # xs = [] @ (x # xs) \<and>
        matcher r (x # xs, Map.empty) = (rest, c) # others \<and>
        m = take (length (x # xs) - length rest) (x # xs) \<and>
        (\<forall>q p. [] = q @ p \<and> p \<noteq> [] \<longrightarrow> matcher r (p @ (x # xs), Map.empty) = [])" by simp
    then show ?thesis by blast
  qed
qed

lemma overall_before_digit:
  assumes "isDigit x" "startsWith ''(<span'' (dropWhile isSpace (dropWhile isDigit t))"
    and "y = CHR ''-'' \<or> isDigit y"
  shows "matcher overallRegex (y # x # t, Map.empty) \<noteq> []"
  using assms by (auto simp: matcher_run run_overallRegex)

lemma str_match_overallRegex_whole:
  assumes "str_match raw overallRegex = Some (m, c)"
  shows "\<exists>pre mi ds ws post. raw = pre @ m @ ws @ ''(<span'' @ post \<and> m = mi @ ds \<and>
           (mi = [] \<or> mi = ''-'') \<and> ds \<noteq> [] \<and> (\<forall>c\<in>set ds. isDigit c) \<and>
           (\<forall>c\<in>set ws. isSpace c) \<and>
           (mi = [] \<longrightarrow> pre = [] \<or> (last pre \<noteq> CHR ''-'' \<and> \<not> isDigit (last pre)))"
proof -
  from str_match_Some_leftmost [OF assms] obtain pre suf rest others where
    p: "raw = pre @ suf" "matcher overallRegex (suf, Map.empty) = (rest, c) # others"
       "m = take (length suf - length rest) suf"
       "\<forall>q p. pre = q @ p \<and> p \<noteq> [] \<longrightarrow> matcher overallRegex (p @ suf, Map.empty) = []" by blast
  from p(2) obtain x t where s: "suf = x # t"
    by (cases suf) (auto simp: matcher_run run_overallRegex_Nil)
  show ?thesis
  proof (cases "x = CHR ''-''")
    case True
    with p(2) s obtain d u where t: "t = d # u" and d: "isDigit d"
      and sw: "startsWith ''(<span'' (dropWhile isSpace (dropWhile isDigit u))"
      and rest: "rest = dropWhile isDigit u"
      by (cases t) (auto simp: matcher_run run_overallRegex split: if_splits)
    from sw obtain post where post: "dropWhile isSpace (dropWhile isDigit u) = ''(<span'' @ post"
      unfolding startsWith_iff by blast
    have m: "m = ''-'' @ (d # takeWhile isDigit u)"
      using p(3) s t rest True by (simp add: consumed2)
    have "u = takeWhile isDigit u @ takeWhile isSpace (dropWhile isDigit u) @ ''(<span'' @ post"
      by (metis post takeWhile_dropWhile_id)
    then have "raw = pre @ m @ takeWhile isSpace (dropWhile isDigit u) @ ''(<span'' @ post"
      using p(1) s t m True by simp
    moreover have "\<forall>c\<in>set (d # takeWhile isDigit u). isDigit c"
      using d by (auto dest: set_takeWhileD)
    moreover have "\<forall>c\<in>set (takeWhile isSpace (dropWhile isDigit u)). isSpace c"
      by (auto dest: set_takeWhileD)
    moreover have "''-'' = [] \<longrightarrow> pre = [] \<or> (last pre \<noteq> CHR ''-'' \<and> \<not> isDigit (last pre))"
      by simp
    ultimately show ?thesis using m by blast
  next
    case False
    with p(2) s have d: "isDigit x"
      and sw: "startsWith ''(<span'' (dropWhile isSpace (dropWhile isDigit t))"
      and rest: "rest = dropWhile isDigit t"
      by (auto simp: matcher_run run_overallRegex split: if_splits)
    from sw obtain post where post: "dropWhile isSpace (dropWhile isDigit t) = ''(<span'' @ post"
      unfolding startsWith_iff by blast
    have m: "m = [] @ (x # takeWhile isDigit t)"
      using p(3) s rest by (simp add: consumed1)
    have "t = takeWhile isDigit t @ takeWhile isSpace (dropWhile isDigit t) @ ''(<span'' @ post"
      by (metis post takeWhile_dropWhile_id)
    then have "raw = pre @ m @ takeWhile isSpace (dropWhile isDigit t) @ ''(<span'' @ post"
      using p(1) s m by simp
    moreover have "\<forall>c\<in>set (x # takeWhile isDigit t). isDigit c"
      using d by (auto dest: set_takeWhileD)
    moreover have "\<forall>c\<in>set (takeWhile isSpace (dropWhile isDigit t)). isSpace c"
      by (auto dest: set_takeWhileD)
    moreover have "pre = [] \<or> (last pre \<noteq> CHR ''-'' \<and> \<not> isDigit (last pre))"
    proof (cases pre rule: rev_cases)
      case Nil
      then show ?thesis by simp
    next
      case (snoc q y)
      with p(4) have "matcher overallRegex ([y] @ suf, Map.empty) = []" by blast
      then have "matcher overallRegex (y # x # t, Map.empty) = []" using s by simp
      with overall_before_digit [OF d sw, of y] have "\<not> (y = CHR ''-'' \<or> isDigit y)" by blast
      with snoc show ?thesis by simp
    qed
    ultimately show ?thesis using m by blast
  qed
qed

section \<open>Extraction of the delta and of the overall value\<close>

text \<open>
  C5, as amended. The delta extraction (\<^verbatim>\<open>changeRegex\<close>) succeeds exactly when the raw value
  contains a sign \<^verbatim>\<open>+\<close> or \<^verbatim>\<open>-\<close>, one or more digits and then the text \<^verbatim>\<open></span\<close>; the
  overall extraction (\<^verbatim>\<open>overallRegex\<close>) succeeds exactly when the raw value contains one
  or more digits, then any white space, then the text \<^verbatim>\<open>(<span\<close>. The extracted delta
  is the sign with its digits. The extracted overall value is a whole digit run together
  with the \<^verbatim>\<open>-\<close> directly before it when there is one: when the extracted value has no
  \<^verbatim>\<open>-\<close>, the character before it in the raw value, if any, is neither a \<^verbatim>\<open>-\<close> nor a
  digit. A raw value that begins with the overall value (with or without \<^verbatim>\<open>-\<close>), white
  space and \<^verbatim>\<open>(<span\<close> gives that overall value, and one that begins with the delta and
  \<^verbatim>\<open></span\<close> gives that delta.
\<close>

theorem change_overall_extraction:
  "(str_match raw changeRegex \<noteq> None \<longleftrightarrow>
      (\<exists>pre sg ds post. raw = pre @ sg # ds @ ''</span'' @ post \<and>
         (sg = CHR ''+'' \<or> sg = CHR ''-'') \<and> ds \<noteq> [] \<and> (\<forall>c\<in>set ds. isDigit c))) \<and>
   (str_match raw overallRegex \<noteq> None \<longleftrightarrow>
      (\<exists>pre ds ws post. raw = pre @ ds @ ws @ ''(<span'' @ post \<and>
         ds \<noteq> [] \<and> (\<forall>c\<in>set ds. isDigit c) \<and> (\<forall>c\<in>set ws. isSpace c))) \<and>
   (\<forall>m c. str_match raw changeRegex = Some (m, c) \<longrightarrow>
      (\<exists>pre sg ds post. raw = pre @ m @ ''</span'' @ post \<and> m = sg # ds \<and>
         (sg = CHR ''+'' \<or> sg = CHR ''-'') \<and> ds \<noteq> [] \<and> (\<forall>c\<in>set ds. isDigit c))) \<and>
   (\<forall>m c. str_match raw overallRegex = Some (m, c) \<longrightarrow>
      (\<exists>pre mi ds ws post. raw = pre @ m @ ws @ ''(<span'' @ post \<and> m = mi @ ds \<and>
         (mi = [] \<or> mi = ''-'') \<and> ds \<noteq> [] \<and> (\<forall>c\<in>set ds. isDigit c) \<and>
         (\<forall>c\<in>set ws. isSpace c) \<and>
         (mi = [] \<longrightarrow> pre = [] \<or> (last pre \<noteq> CHR ''-'' \<and> \<not> isDigit (last pre))))) \<and>
   ((dash = [] \<or> dash = ''-'') \<and> overallDigits \<noteq> [] \<and> (\<forall>c\<in>set overallDigits. isDigit c) \<and>
    (\<forall>c\<in>set spaces. isSpace c) \<longrightarrow>
      (\<exists>c. str_match (dash @ overallDigits @ spaces @ ''(<span'' @ rest) overallRegex
             = Some (dash @ overallDigits, c))) \<and>
   ((sign = CHR ''+'' \<or> sign = CHR ''-'') \<and> deltaDigits \<noteq> [] \<and> (\<forall>c\<in>set deltaDigits. isDigit c) \<longrightarrow>
      (\<exists>c. str_match (sign # deltaDigits @ ''</span'' @ rest) changeRegex
             = Some (sign # deltaDigits, c)))"
proof (intro conjI allI impI)
  show "str_match raw changeRegex \<noteq> None \<longleftrightarrow>
      (\<exists>pre sg ds post. raw = pre @ sg # ds @ ''</span'' @ post \<and>
         (sg = CHR ''+'' \<or> sg = CHR ''-'') \<and> ds \<noteq> [] \<and> (\<forall>c\<in>set ds. isDigit c))"
    unfolding str_match_Some_iff matcher_changeRegex_iff by blast
next
  show "str_match raw overallRegex \<noteq> None \<longleftrightarrow>
      (\<exists>pre ds ws post. raw = pre @ ds @ ws @ ''(<span'' @ post \<and>
         ds \<noteq> [] \<and> (\<forall>c\<in>set ds. isDigit c) \<and> (\<forall>c\<in>set ws. isSpace c))"
    (is "?L \<longleftrightarrow> ?R")
  proof
    assume ?L
    then obtain pre m ds ws post where "raw = pre @ m @ ds @ ws @ ''(<span'' @ post"
      "ds \<noteq> []" "\<forall>c\<in>set ds. isDigit c" "\<forall>c\<in>set ws. isSpace c"
      unfolding str_match_Some_iff matcher_overallRegex_iff by blast
    then have "raw = (pre @ m) @ ds @ ws @ ''(<span'' @ post \<and>
        ds \<noteq> [] \<and> (\<forall>c\<in>set ds. isDigit c) \<and> (\<forall>c\<in>set ws. isSpace c)" by simp
    then show ?R by blast
  next
    assume ?R
    then obtain pre ds ws post where "raw = pre @ ([] @ ds @ ws @ ''(<span'' @ post)"
      "ds \<noteq> []" "\<forall>c\<in>set ds. isDigit c" "\<forall>c\<in>set ws. isSpace c" by auto
    then show ?L unfolding str_match_Some_iff matcher_overallRegex_iff by blast
  qed
next
  fix m c assume "str_match raw changeRegex = Some (m, c)"
  then show "\<exists>pre sg ds post. raw = pre @ m @ ''</span'' @ post \<and> m = sg # ds \<and>
         (sg = CHR ''+'' \<or> sg = CHR ''-'') \<and> ds \<noteq> [] \<and> (\<forall>c\<in>set ds. isDigit c)"
    by (rule str_match_changeRegex_SomeD)
next
  fix m c assume "str_match raw overallRegex = Some (m, c)"
  then show "\<exists>pre mi ds ws post. raw = pre @ m @ ws @ ''(<span'' @ post \<and> m = mi @ ds \<and>
         (mi = [] \<or> mi = ''-'') \<and> ds \<noteq> [] \<and> (\<forall>c\<in>set ds. isDigit c) \<and>
         (\<forall>c\<in>set ws. isSpace c) \<and>
         (mi = [] \<longrightarrow> pre = [] \<or> (last pre \<noteq> CHR ''-'' \<and> \<not> isDigit (last pre)))"
    by (rule str_match_overallRegex_whole)
next
  assume a: "(dash = [] \<or> dash = ''-'') \<and> overallDigits \<noteq> [] \<and>
    (\<forall>c\<in>set overallDigits. isDigit c) \<and> (\<forall>c\<in>set spaces. isSpace c)"
  show "\<exists>c. str_match (dash @ overallDigits @ spaces @ ''(<span'' @ rest) overallRegex
             = Some (dash @ overallDigits, c)"
    by (rule str_match_overall_here) (use a in blast)+
next
  assume a: "(sign = CHR ''+'' \<or> sign = CHR ''-'') \<and> deltaDigits \<noteq> [] \<and>
    (\<forall>c\<in>set deltaDigits. isDigit c)"
  show "\<exists>c. str_match (sign # deltaDigits @ ''</span'' @ rest) changeRegex
             = Some (sign # deltaDigits, c)"
    by (rule str_match_change_here) (use a in blast)+
qed

lemma isDigit_12:
  "\<forall>c\<in>set ''12''. isDigit c" "\<forall>c\<in>set ''1543''. isDigit c" "\<forall>c\<in>set ''25''. isDigit c"
  "\<forall>c\<in>set ''8''. isDigit c"
  by (simp_all add: isDigit_def)

theorem change_overall_extraction_witness:
  "str_match ''1543 (<span class=\"history-win\">+12</span>)'' changeRegex \<noteq> None \<and>
   str_match ''1543 (<span class=\"history-win\">+12</span>)'' overallRegex \<noteq> None \<and>
   map_option fst (str_match ''1543 (<span class=\"history-win\">+12</span>)'' changeRegex) = Some ''+12'' \<and>
   map_option fst (str_match ''1543 (<span class=\"history-win\">+12</span>)'' overallRegex) = Some ''1543'' \<and>
   map_option fst (str_match ''-25 (<span class=\"history-loss\">-8</span>)'' overallRegex) = Some ''-25'' \<and>
   map_option fst (str_match ''-8</span>)'' changeRegex) = Some ''-8''"
proof -
  let ?raw = "''1543 (<span class=\"history-win\">+12</span>)''"
  note t = change_overall_extraction [of ?raw]
  note t1 = t [THEN conjunct1]
  note t2 = t [THEN conjunct2, THEN conjunct1]
  have "?raw = ''1543 (<span class=\"history-win\">'' @ CHR ''+'' # ''12'' @ ''</span'' @ ''>)'' \<and>
      (CHR ''+'' = CHR ''+'' \<or> CHR ''+'' = CHR ''-'') \<and> ''12'' \<noteq> [] \<and> (\<forall>c\<in>set ''12''. isDigit c)"
    using isDigit_12(1) by simp
  then have "\<exists>pre sg ds post. ?raw = pre @ sg # ds @ ''</span'' @ post \<and>
         (sg = CHR ''+'' \<or> sg = CHR ''-'') \<and> ds \<noteq> [] \<and> (\<forall>c\<in>set ds. isDigit c)"
    by blast
  with t1 have a: "str_match ?raw changeRegex \<noteq> None" by blast
  have "?raw = [] @ ''1543'' @ '' '' @ ''(<span'' @ '' class=\"history-win\">+12</span>)'' \<and>
      ''1543'' \<noteq> [] \<and> (\<forall>c\<in>set ''1543''. isDigit c) \<and> (\<forall>c\<in>set '' ''. isSpace c)"
    using isDigit_12(2) by (simp add: isSpace_def)
  then have "\<exists>pre ds ws post. ?raw = pre @ ds @ ws @ ''(<span'' @ post \<and>
         ds \<noteq> [] \<and> (\<forall>c\<in>set ds. isDigit c) \<and> (\<forall>c\<in>set ws. isSpace c)"
    by blast
  with t2 have b: "str_match ?raw overallRegex \<noteq> None" by blast
  have c: "map_option fst (str_match ?raw changeRegex) = Some ''+12''" by code_simp
  have d: "map_option fst (str_match ?raw overallRegex) = Some ''1543''" by code_simp
  note u = change_overall_extraction
    [where dash = "''-''" and overallDigits = "''25''" and spaces = "'' ''"
       and rest = "'' class=\"history-loss\">-8</span>)''",
     THEN conjunct2, THEN conjunct2, THEN conjunct2, THEN conjunct2, THEN conjunct1, THEN mp]
  have pu: "(''-'' = [] \<or> ''-'' = ''-'') \<and> ''25'' \<noteq> [] \<and> (\<forall>c\<in>set ''25''. isDigit c) \<and>
      (\<forall>c\<in>set '' ''. isSpace c)"
    using isDigit_12(3) by (simp add: isSpace_def)
  from u [OF pu] obtain c1 where
    "str_match (''-'' @ ''25'' @ '' '' @ ''(<span'' @ '' class=\"history-loss\">-8</span>)'')
      overallRegex = Some (''-'' @ ''25'', c1)" ..
  then have "map_option fst
      (str_match (''-'' @ ''25'' @ '' '' @ ''(<span'' @ '' class=\"history-loss\">-8</span>)'')
      overallRegex) = Some (''-'' @ ''25'')"
    by (simp only: option.map fst_conv)
  then have e: "map_option fst (str_match ''-25 (<span class=\"history-loss\">-8</span>)'' overallRegex)
      = Some ''-25''"
    by (simp only: append_Cons append_Nil)
  note v = change_overall_extraction
    [where sign = "CHR ''-''" and deltaDigits = "''8''" and rest = "''>)''",
     THEN conjunct2, THEN conjunct2, THEN conjunct2, THEN conjunct2, THEN conjunct2, THEN mp]
  have pv: "(CHR ''-'' = CHR ''+'' \<or> CHR ''-'' = CHR ''-'') \<and> ''8'' \<noteq> [] \<and>
      (\<forall>c\<in>set ''8''. isDigit c)"
    using isDigit_12(4) by simp
  from v [OF pv] obtain c2 where
    "str_match (CHR ''-'' # ''8'' @ ''</span'' @ ''>)'') changeRegex = Some (CHR ''-'' # ''8'', c2)" ..
  then have "map_option fst (str_match (CHR ''-'' # ''8'' @ ''</span'' @ ''>)'') changeRegex)
      = Some (CHR ''-'' # ''8'')"
    by (simp only: option.map fst_conv)
  then have f: "map_option fst (str_match ''-8</span>)'' changeRegex) = Some ''-8''"
    by (simp only: append_Cons append_Nil)
  from a b c d e f show ?thesis by blast
qed

text \<open>
  C5 as stated fails on both sides. In the first raw value below the digit run \<^verbatim>\<open>1543\<close>
  is directly followed by a markup open tag, and the overall value is not extracted (the
  field stays raw), because the opening parenthesis before the tag is missing. In the
  second the token \<^verbatim>\<open>+12\<close> is directly followed by a markup close tag, \<^verbatim>\<open></div>\<close>, and the
  delta is not extracted, because the close tag is not \<^verbatim>\<open></span\<close>.
\<close>

theorem overall_extraction_counterexample:
  "''1543<span class=\"history-win\">+12</span>''
     = ''1543'' @ ''<span'' @ '' class=\"history-win\">+12</span>'' \<and>
   list_all isDigit ''1543'' \<and>
   str_match ''1543<span class=\"history-win\">+12</span>'' overallRegex = None \<and>
   formatChange ''1543<span class=\"history-win\">+12</span>''
     = ''1543<span class=\"history-win\">+12</span>'' \<and>
   ''1543 (<div>+12</div>)'' = ''1543 (<div>'' @ CHR ''+'' # ''12'' @ ''</div>'' @ '')'' \<and>
   list_all isDigit ''12'' \<and>
   str_match ''1543 (<div>+12</div>)'' changeRegex = None"
proof -
  have "Option.is_none (str_match ''1543<span class=\"history-win\">+12</span>'' overallRegex)"
    by code_simp
  then have n: "str_match ''1543<span class=\"history-win\">+12</span>'' overallRegex = None"
    by (simp add: Option.is_none_def)
  have "Option.is_none (str_match ''1543 (<div>+12</div>)'' changeRegex)"
    by code_simp
  then have n2: "str_match ''1543 (<div>+12</div>)'' changeRegex = None"
    by (simp add: Option.is_none_def)
  have "list_all isDigit ''1543''" "list_all isDigit ''12''" by (simp_all add: isDigit_def)
  with n n2 show ?thesis by (simp add: formatChange_def split: option.splits)
qed


lemma no_change_before:
  assumes pre: "pre = q @ p" "p \<noteq> []"
    and shape: "pre = A @ CHR ''<'' # x # B" "x \<noteq> CHR ''/''" "CHR ''<'' \<notin> set A"
      "CHR ''<'' \<notin> set (x # B)" "last (x # B) = CHR ''>''"
    and d: "sg = CHR ''+'' \<or> sg = CHR ''-''" "\<forall>c\<in>set es. isDigit c"
  shows "matcher changeRegex (p @ sg # es @ ''</span'' @ post, Map.empty) = []"
proof (rule ccontr)
  let ?P = "\<lambda>c. c \<noteq> CHR ''<''"
  assume "matcher changeRegex (p @ sg # es @ ''</span'' @ post, Map.empty) \<noteq> []"
  then obtain sg' ds' post' where m: "p @ sg # es @ ''</span'' @ post = sg' # ds' @ ''</span'' @ post'"
    "sg' = CHR ''+'' \<or> sg' = CHR ''-''" "ds' \<noteq> []" "\<forall>c\<in>set ds'. isDigit c"
    unfolding matcher_changeRegex_iff by blast
  have r1: "\<forall>c\<in>set (sg' # ds'). ?P c" using m(2,4) by (auto dest: not_lt_digit_sign)
  have rt: "takeWhile ?P (sg' # ds' @ ''</span'' @ post') = sg' # ds'"
    and rd: "dropWhile ?P (sg' # ds' @ ''</span'' @ post') = ''</span'' @ post'"
    using takeWhile_dropWhile_digits [of "sg' # ds'" ?P "''</span'' @ post'"] r1 by simp_all
  have l1: "\<forall>c\<in>set (sg # es). ?P c" using d by (auto dest: not_lt_digit_sign)
  show False
  proof (cases "CHR ''<'' \<in> set p")
    case True
    from pre(1) shape(1) have "q @ p = A @ (CHR ''<'' # x # B)" by simp
    then obtain us where "(q = A @ us \<and> us @ p = CHR ''<'' # x # B) \<or>
        (q @ us = A \<and> p = us @ CHR ''<'' # x # B)"
      unfolding append_eq_append_conv2 by blast
    then have "\<exists>us. p = us @ CHR ''<'' # x # B \<and> CHR ''<'' \<notin> set us"
    proof
      assume a: "q = A @ us \<and> us @ p = CHR ''<'' # x # B"
      show ?thesis
      proof (cases us)
        case Nil
        with a have "p = [] @ CHR ''<'' # x # B" by simp
        then show ?thesis by (intro exI [of _ "[]"]) simp
      next
        case (Cons u us')
        with a have "us' @ p = x # B" by simp
        then have "set p \<subseteq> set (x # B)" by (metis set_append Un_upper2)
        with True shape(4) show ?thesis by blast
      qed
    next
      assume a: "q @ us = A \<and> p = us @ CHR ''<'' # x # B"
      then have "set us \<subseteq> set A" by auto
      with shape(3) a show ?thesis by blast
    qed
    then obtain us where us: "p = us @ CHR ''<'' # x # B" "CHR ''<'' \<notin> set us" by blast
    have "dropWhile ?P (p @ sg # es @ ''</span'' @ post)
        = CHR ''<'' # x # B @ sg # es @ ''</span'' @ post"
    proof -
      from us(2) have "\<forall>c\<in>set us. ?P c" by auto
      then have "dropWhile ?P (us @ (CHR ''<'' # x # B @ sg # es @ ''</span'' @ post))
          = CHR ''<'' # x # B @ sg # es @ ''</span'' @ post"
        using takeWhile_dropWhile_digits
          [of us ?P "CHR ''<'' # x # B @ sg # es @ ''</span'' @ post"] by simp
      with us(1) show ?thesis by simp
    qed
    with m(1) rd have "CHR ''<'' # x # B @ sg # es @ ''</span'' @ post = ''</span'' @ post'"
      by simp
    with shape(2) show False by simp
  next
    case False
    then have "\<forall>c\<in>set (p @ sg # es). ?P c" using l1 by auto
    then have "takeWhile ?P ((p @ sg # es) @ ''</span'' @ post) = p @ sg # es"
      using takeWhile_dropWhile_digits [of "p @ sg # es" ?P "''</span'' @ post"] by simp
    with m(1) rt have e: "p @ sg # es = sg' # ds'" by simp
    from pre have "last p = last pre" by simp
    also have "\<dots> = CHR ''>''" using shape(1,5) by simp
    finally have "CHR ''>'' \<in> set p" using pre(2) by (metis last_in_set)
    then have "CHR ''>'' \<in> set (sg' # ds')" using e by (metis set_append UnI1)
    with m(2,4) show False by (auto dest: not_lt_digit_sign)
  qed
qed

lemma str_match_change_site_format:
  assumes "mi = [] \<or> mi = ''-''" "\<forall>c\<in>set ds. isDigit c" "\<forall>c\<in>set ws. isSpace c"
    and "CHR ''<'' \<notin> set attrs"
    and "sg = CHR ''+'' \<or> sg = CHR ''-''" "es \<noteq> []" "\<forall>c\<in>set es. isDigit c"
  shows "\<exists>c. str_match ((mi @ ds @ ws @ ''(<span'' @ attrs @ ''>'') @ sg # es @ ''</span'' @ post)
           changeRegex = Some (sg # es, c)"
proof -
  let ?pre = "mi @ ds @ ws @ ''(<span'' @ attrs @ ''>''"
  let ?s = "sg # es @ ''</span'' @ post"
  have a1: "CHR ''<'' \<notin> set ds" using assms(2) not_isDigit(1) by blast
  have a2: "CHR ''<'' \<notin> set ws" using assms(3) not_isSpace(2) by blast
  have a3: "CHR ''<'' \<notin> set mi" using assms(1) by auto
  have a: "CHR ''<'' \<notin> set (mi @ ds @ ws @ ''('')"
    using a1 a2 a3 by simp
  have b: "CHR ''<'' \<notin> set (CHR ''s'' # ''pan'' @ attrs @ ''>'')" using assms(4) by simp
  have c: "?pre = (mi @ ds @ ws @ ''('') @ CHR ''<'' # CHR ''s'' # ''pan'' @ attrs @ ''>''" by simp
  have l: "last (CHR ''s'' # ''pan'' @ attrs @ ''>'') = CHR ''>''" by simp
  have "str_match (?pre @ ?s) changeRegex = str_match ?s changeRegex"
  proof (rule str_match_skip)
    fix q p assume qp: "?pre = q @ p" "p \<noteq> []"
    show "matcher changeRegex (p @ ?s, Map.empty) = []"
      by (rule no_change_before [OF qp c _ a b l assms(5) assms(7)]) simp
  qed
  with str_match_change_here [OF assms(5-7), of post] show ?thesis by simp
qed

lemma formatChange_site_format:
  assumes "mi = [] \<or> mi = ''-''" "ds \<noteq> []" "\<forall>c\<in>set ds. isDigit c" "\<forall>c\<in>set ws. isSpace c"
    and "CHR ''<'' \<notin> set attrs"
    and "sg = CHR ''+'' \<or> sg = CHR ''-''" "es \<noteq> []" "\<forall>c\<in>set es. isDigit c"
  shows "formatChange (mi @ ds @ ws @ ''(<span'' @ attrs @ ''>'' @ sg # es @ ''</span>'' @ post)
           = sg # es @ '' ('' @ mi @ ds @ '')''"
proof -
  let ?raw = "mi @ ds @ ws @ ''(<span'' @ attrs @ ''>'' @ sg # es @ ''</span>'' @ post"
  have r2: "?raw = (mi @ ds @ ws @ ''(<span'' @ attrs @ ''>'') @ sg # es @ ''</span'' @ (''>'' @ post)"
    by simp
  obtain c2 where ov: "str_match ?raw overallRegex = Some (mi @ ds, c2)"
    using str_match_overall_here [OF assms(1-4), of "attrs @ ''>'' @ sg # es @ ''</span>'' @ post"]
    by blast
  obtain c1 where ch: "str_match ?raw changeRegex = Some (sg # es, c1)"
    unfolding r2 using str_match_change_site_format [OF assms(1,3-8), of "''>'' @ post"] by blast
  from ov ch show ?thesis by (simp add: formatChange_def)
qed

lemma formatChange_siteFormat:
  assumes "siteFormat raw overall delta"
  shows "formatChange raw = delta @ '' ('' @ overall @ '')''" and "raw \<noteq> []"
proof -
  from assms obtain mi ds ws attrs sg es post where
    r: "raw = overall @ ws @ ''(<span'' @ attrs @ ''>'' @ delta @ ''</span>'' @ post"
    and o: "overall = mi @ ds" "mi = [] \<or> mi = ''-''" "ds \<noteq> []" "\<forall>c\<in>set ds. isDigit c"
    and w: "\<forall>c\<in>set ws. isSpace c" "CHR ''<'' \<notin> set attrs"
    and d: "delta = sg # es" "sg = CHR ''+'' \<or> sg = CHR ''-''" "es \<noteq> []" "\<forall>c\<in>set es. isDigit c"
    unfolding siteFormat_def by blast
  from formatChange_site_format [OF o(2-4) w d(2-4), of post]
  show "formatChange raw = delta @ '' ('' @ overall @ '')''"
    using r o(1) d(1) by simp
  from r o(1,3) show "raw \<noteq> []" by simp
qed

lemma siteFormat_example:
  "siteFormat ''200 (<span class=\"history-win\">+15</span>)'' ''200'' ''+15''"
proof -
  have "''200 (<span class=\"history-win\">+15</span>)''
        = ''200'' @ '' '' @ ''(<span'' @ '' class=\"history-win\"'' @ ''>'' @ ''+15'' @ ''</span>'' @ '')'' \<and>
      ''200'' = [] @ ''200'' \<and> ([] = [] \<or> [] = ''-'') \<and> ''200'' \<noteq> [] \<and> (\<forall>c\<in>set ''200''. isDigit c) \<and>
      (\<forall>c\<in>set '' ''. isSpace c) \<and> CHR ''<'' \<notin> set '' class=\"history-win\"'' \<and>
      ''+15'' = CHR ''+'' # ''15'' \<and> (CHR ''+'' = CHR ''+'' \<or> CHR ''+'' = CHR ''-'') \<and> ''15'' \<noteq> [] \<and>
      (\<forall>c\<in>set ''15''. isDigit c)"
    by (simp add: isDigit_def isSpace_def)
  then show ?thesis unfolding siteFormat_def by blast
qed

lemma formatChange_both:
  "str_match raw changeRegex = Some (d, c1) \<Longrightarrow> str_match raw overallRegex = Some (ov, c2) \<Longrightarrow>
     formatChange raw = d @ '' ('' @ ov @ '')''"
  by (simp add: formatChange_def)

lemma formatChange_either:
  "str_match raw changeRegex = None \<or> str_match raw overallRegex = None \<Longrightarrow> formatChange raw = raw"
  by (auto simp: formatChange_def split: option.splits)

section \<open>Rewriting of the change fields\<close>

text \<open>
  C4. For each of \<^verbatim>\<open>matchmaking_change\<close> and \<^verbatim>\<open>personal_change\<close> that is present and not
  empty: when the delta and the overall value are both extracted from the raw value, the
  field becomes the delta, a space and the overall value in parentheses; when one of the
  extractions fails the field keeps its raw value, and no error is raised (\<open>normalize\<close>
  is total). Every raw value in the form the site sends, with overall value \<open>overall\<close> and
  delta \<open>delta\<close>, becomes \<open>delta\<close>, a space and \<open>overall\<close> in parentheses: the raw value
  \<^verbatim>\<open>200 (<span class="history-win">+15</span>)\<close> becomes \<^verbatim>\<open>+15 (200)\<close>.
\<close>

theorem normalize_change_fields:
  "(matchmaking_change cd = Some raw \<and> raw \<noteq> [] \<and>
      str_match raw changeRegex = Some (delta, c1) \<and> str_match raw overallRegex = Some (overall, c2) \<longrightarrow>
        matchmaking_change (normalize cd) = Some (delta @ '' ('' @ overall @ '')'')) \<and>
   (matchmaking_change cd = Some raw \<and> raw \<noteq> [] \<and>
      (str_match raw changeRegex = None \<or> str_match raw overallRegex = None) \<longrightarrow>
        matchmaking_change (normalize cd) = Some raw) \<and>
   (personal_change cd = raw \<and> raw \<noteq> [] \<and>
      str_match raw changeRegex = Some (delta, c1) \<and> str_match raw overallRegex = Some (overall, c2) \<longrightarrow>
        personal_change (normalize cd) = delta @ '' ('' @ overall @ '')'') \<and>
   (personal_change cd = raw \<and> raw \<noteq> [] \<and>
      (str_match raw changeRegex = None \<or> str_match raw overallRegex = None) \<longrightarrow>
        personal_change (normalize cd) = raw) \<and>
   (siteFormat raw overall delta \<and> matchmaking_change cd = Some raw \<longrightarrow>
      matchmaking_change (normalize cd) = Some (delta @ '' ('' @ overall @ '')'')) \<and>
   (siteFormat raw overall delta \<and> personal_change cd = raw \<longrightarrow>
      personal_change (normalize cd) = delta @ '' ('' @ overall @ '')'') \<and>
   personal_change
     (normalize (cd\<lparr>personal_change := ''200 (<span class=\"history-win\">+15</span>)''\<rparr>))
     = ''+15 (200)'' \<and>
   matchmaking_change
     (normalize (cd\<lparr>matchmaking_change := Some ''1543 (<span class=\"history-loss\">-8</span>)''\<rparr>))
     = Some ''-8 (1543)''"
proof -
  have e1: "formatChange ''200 (<span class=\"history-win\">+15</span>)'' = ''+15 (200)''"
    by code_simp
  have e2: "formatChange ''1543 (<span class=\"history-loss\">-8</span>)'' = ''-8 (1543)''"
    by code_simp
  have m: "matchmaking_change (normalize cd) = Some (formatChange r)"
    if "matchmaking_change cd = Some r" "r \<noteq> []" for r
    using that by (simp add: normalize_def Let_def)
  have p: "personal_change (normalize cd) = formatChange (personal_change cd)"
    if "personal_change cd \<noteq> []"
    using that by (simp add: normalize_def Let_def split: option.splits)
  have s1: "matchmaking_change (normalize cd) = Some (delta @ '' ('' @ overall @ '')'')"
    if "siteFormat raw overall delta" "matchmaking_change cd = Some raw"
    using m [OF that(2) formatChange_siteFormat(2) [OF that(1)]]
      formatChange_siteFormat(1) [OF that(1)] by simp
  have s2: "personal_change (normalize cd) = delta @ '' ('' @ overall @ '')''"
    if "siteFormat raw overall delta" "personal_change cd = raw"
    using p formatChange_siteFormat [OF that(1)] that(2) by simp
  have g: "matchmaking_change (normalize cd) = Some (delta @ '' ('' @ overall @ '')'')"
    if "matchmaking_change cd = Some raw" "raw \<noteq> []"
      "str_match raw changeRegex = Some (delta, c1)" "str_match raw overallRegex = Some (overall, c2)"
    using m [OF that(1,2)] formatChange_both [OF that(3,4)] by simp
  have h: "matchmaking_change (normalize cd) = Some raw"
    if "matchmaking_change cd = Some raw" "raw \<noteq> []"
      "str_match raw changeRegex = None \<or> str_match raw overallRegex = None"
    using m [OF that(1,2)] formatChange_either [OF that(3)] by simp
  have i: "personal_change (normalize cd) = delta @ '' ('' @ overall @ '')''"
    if "personal_change cd = raw" "raw \<noteq> []"
      "str_match raw changeRegex = Some (delta, c1)" "str_match raw overallRegex = Some (overall, c2)"
    using p that(1,2) formatChange_both [OF that(3,4)] by simp
  have j: "personal_change (normalize cd) = raw"
    if "personal_change cd = raw" "raw \<noteq> []"
      "str_match raw changeRegex = None \<or> str_match raw overallRegex = None"
    using p that(1,2) formatChange_either [OF that(3)] by simp
  have k: "personal_change
      (normalize (cd\<lparr>personal_change := ''200 (<span class=\"history-win\">+15</span>)''\<rparr>))
      = ''+15 (200)''"
    by (simp add: normalize_def Let_def e1 split: option.splits)
  have l: "matchmaking_change
      (normalize (cd\<lparr>matchmaking_change := Some ''1543 (<span class=\"history-loss\">-8</span>)''\<rparr>))
      = Some ''-8 (1543)''"
    by (simp add: normalize_def Let_def e2)
  from g h i j s1 s2 k l show ?thesis by blast
qed

theorem normalize_change_fields_witness:
  "siteFormat ''200 (<span class=\"history-win\">+15</span>)'' ''200'' ''+15'' \<and>
   personal_change (normalize rawDetail) = ''+15 (200)'' \<and>
   matchmaking_change
     (normalize (rawDetail\<lparr>matchmaking_change := Some ''200 (<span class=\"history-win\">+15</span>)''\<rparr>))
     = Some ''+15 (200)'' \<and>
   matchmaking_change (normalize (rawDetail\<lparr>matchmaking_change := Some ''+15</span>''\<rparr>))
     = Some ''+15</span>'' \<and>
   personal_change (normalize (rawDetail\<lparr>personal_change := ''n/a''\<rparr>)) = ''n/a''"
proof -
  let ?raw = "''200 (<span class=\"history-win\">+15</span>)''"
  have "map_option fst (str_match ?raw changeRegex) = Some ''+15''" by code_simp
  then obtain c1 where c: "str_match ?raw changeRegex = Some (''+15'', c1)" by auto
  have "map_option fst (str_match ?raw overallRegex) = Some ''200''" by code_simp
  then obtain c2 where ov: "str_match ?raw overallRegex = Some (''200'', c2)" by auto
  have "Option.is_none (str_match ''+15</span>'' overallRegex)" by code_simp
  then have n1: "str_match ''+15</span>'' overallRegex = None" by (simp add: Option.is_none_def)
  have "Option.is_none (str_match ''n/a'' changeRegex)" by code_simp
  then have n2: "str_match ''n/a'' changeRegex = None" by (simp add: Option.is_none_def)
  have p: "personal_change rawDetail = ?raw" by (simp add: rawDetail_def)
  have sf: "siteFormat ?raw ''200'' ''+15''" by (rule siteFormat_example)
  note t1 = normalize_change_fields [of rawDetail ?raw "''+15''" c1 "''200''" c2]
  note t2 = normalize_change_fields
    [of "rawDetail\<lparr>matchmaking_change := Some ?raw\<rparr>" ?raw "''+15''" c1 "''200''" c2]
  note t3 = normalize_change_fields
    [of "rawDetail\<lparr>matchmaking_change := Some ''+15</span>''\<rparr>" "''+15</span>''"]
  note t4 = normalize_change_fields [of "rawDetail\<lparr>personal_change := ''n/a''\<rparr>" "''n/a''"]
  have a: "personal_change (normalize rawDetail) = ''+15 (200)''"
    using t1 p sf by simp
  have b: "matchmaking_change (normalize (rawDetail\<lparr>matchmaking_change := Some ?raw\<rparr>))
      = Some ''+15 (200)''"
    using t2 c ov by simp
  have d: "matchmaking_change (normalize (rawDetail\<lparr>matchmaking_change := Some ''+15</span>''\<rparr>))
      = Some ''+15</span>''"
    using t3 n1 by simp
  have e: "personal_change (normalize (rawDetail\<lparr>personal_change := ''n/a''\<rparr>)) = ''n/a''"
    using t4 n2 by simp
  from sf a b d e show ?thesis by simp
qed


section \<open>Stripping of the markup tags\<close>

lemma replace_g_tagRegex: "replace_g s tagRegex [] = specStripTags s"
proof (induction s rule: specStripTags.induct)
  case 1
  show ?case by (subst replace_g.simps) (simp add: matcher_run run_tagRegex)
next
  case (2 x xs)
  show ?case
  proof (cases "tagEnd (x # xs)")
    case None
    then show ?thesis using 2(1) [OF None]
      by (subst replace_g.simps) (simp add: matcher_run run_tagRegex)
  next
    case (Some rest)
    then show ?thesis using 2(2) [OF Some] tagEnd_shorter [OF Some]
      by (subst replace_g.simps) (simp add: matcher_run run_tagRegex)
  qed
qed

lemma tagEnd_not_lt: "CHR ''<'' \<noteq> x \<Longrightarrow> tagEnd (x # xs) = None"
  by (cases xs) simp_all

lemma tagEnd_tag:
  "b \<noteq> [] \<Longrightarrow> CHR ''>'' \<notin> set b \<Longrightarrow> tagEnd (CHR ''<'' # b @ CHR ''>'' # s) = Some s"
proof -
  assume b: "b \<noteq> []" "CHR ''>'' \<notin> set b"
  then obtain y b' where yb: "b = y # b'" by (cases b) auto
  with b have "y \<noteq> CHR ''>''" "\<forall>c\<in>set b'. c \<noteq> CHR ''>''" by auto
  then have "dropWhile (\<lambda>c. c \<noteq> CHR ''>'') (b' @ CHR ''>'' # s) = CHR ''>'' # s"
    by simp
  with yb \<open>y \<noteq> CHR ''>''\<close> show ?thesis by simp
qed

lemma specStripTags_plain: "CHR ''<'' \<notin> set p \<Longrightarrow> specStripTags (p @ s) = p @ specStripTags s"
  by (induction p) (simp_all add: tagEnd_not_lt)

lemma specStripTags_tag:
  "b \<noteq> [] \<Longrightarrow> CHR ''>'' \<notin> set b \<Longrightarrow> specStripTags (CHR ''<'' # b @ CHR ''>'' # s) = specStripTags s"
  by (simp add: tagEnd_tag)

lemma specStripTags_segments:
  assumes "\<forall>(b, p)\<in>set segs. b \<noteq> [] \<and> CHR ''>'' \<notin> set b \<and> CHR ''<'' \<notin> set p"
  shows "specStripTags (concat (map (\<lambda>(b, p). ''<'' @ b @ ''>'' @ p) segs)) = concat (map snd segs)"
  using assms
proof (induction segs)
  case Nil
  show ?case by simp
next
  case (Cons bp segs)
  obtain b p where bp: "bp = (b, p)" by (cases bp)
  with Cons.prems have h: "b \<noteq> []" "CHR ''>'' \<notin> set b" "CHR ''<'' \<notin> set p" by auto
  from Cons have ih: "specStripTags (concat (map (\<lambda>(b, p). ''<'' @ b @ ''>'' @ p) segs)) = concat (map snd segs)"
    by simp
  show ?case using specStripTags_tag [OF h(1,2)] specStripTags_plain [OF h(3)] ih
    by (simp add: bp)
qed

lemma set_specStripTags: "set (specStripTags s) \<subseteq> set s"
proof (induction s rule: specStripTags.induct)
  case 1
  show ?case by simp
next
  case (2 x xs)
  show ?case
  proof (cases "tagEnd (x # xs)")
    case None
    with 2(1) [OF None] show ?thesis by auto
  next
    case (Some rest)
    have "set rest \<subseteq> set (x # xs)"
    proof (cases xs)
      case Nil
      with Some show ?thesis by simp
    next
      case (Cons y t)
      with Some obtain z where "dropWhile (\<lambda>c. c \<noteq> CHR ''>'') t = z # rest"
        by (auto split: if_splits list.splits)
      then have "set rest \<subseteq> set (dropWhile (\<lambda>c. c \<noteq> CHR ''>'') t)" by auto
      also have "\<dots> \<subseteq> set t" by (rule set_dropWhileD [THEN subsetI]) 
      finally show ?thesis using Cons by auto
    qed
    with 2(2) [OF Some] Some show ?thesis by auto
  qed
qed

lemma tagEnd_SomeD:
  "tagEnd s = Some rest \<Longrightarrow>
     \<exists>body. s = ''<'' @ body @ ''>'' @ rest \<and> body \<noteq> [] \<and> CHR ''>'' \<notin> set body"
proof (induction s rule: tagEnd.induct)
  case (1 x y t)
  then have x: "x = CHR ''<''" "y \<noteq> CHR ''>''" by (auto split: if_splits)
  from 1 obtain z where z: "dropWhile (\<lambda>c. c \<noteq> CHR ''>'') t = z # rest"
    by (auto split: if_splits list.splits)
  then have "z = CHR ''>''" by (rule dropWhile_neq_Cons)
  with z have "t = takeWhile (\<lambda>c. c \<noteq> CHR ''>'') t @ CHR ''>'' # rest"
    by (metis takeWhile_dropWhile_id)
  then have "x # y # t = ''<'' @ (y # takeWhile (\<lambda>c. c \<noteq> CHR ''>'') t) @ ''>'' @ rest"
    using x by simp
  moreover have "CHR ''>'' \<notin> set (y # takeWhile (\<lambda>c. c \<noteq> CHR ''>'') t)"
    using x(2) by (auto dest: set_takeWhileD)
  ultimately show ?case by blast
qed simp_all

lemma hasTag_Nil: "\<not> hasTag []"
  by (simp add: hasTag_def)

lemma hasTag_Cons: "hasTag (x # xs) \<longleftrightarrow> tagEnd (x # xs) \<noteq> None \<or> hasTag xs"
proof
  assume "hasTag (x # xs)"
  then obtain pre body post where d: "x # xs = pre @ ''<'' @ body @ ''>'' @ post"
    "body \<noteq> []" "CHR ''>'' \<notin> set body"
    unfolding hasTag_def by blast
  show "tagEnd (x # xs) \<noteq> None \<or> hasTag xs"
  proof (cases pre)
    case Nil
    with d(1) have "x # xs = CHR ''<'' # body @ CHR ''>'' # post" by simp
    with tagEnd_tag [OF d(2,3), of post] show ?thesis by simp
  next
    case (Cons a pre')
    with d(1) have "xs = pre' @ ''<'' @ body @ ''>'' @ post" by simp
    with d(2,3) have "hasTag xs" unfolding hasTag_def by blast
    then show ?thesis ..
  qed
next
  assume "tagEnd (x # xs) \<noteq> None \<or> hasTag xs"
  then show "hasTag (x # xs)"
  proof
    assume "tagEnd (x # xs) \<noteq> None"
    then obtain rest where "tagEnd (x # xs) = Some rest" by auto
    from tagEnd_SomeD [OF this] obtain body where
      "x # xs = [] @ ''<'' @ body @ ''>'' @ rest" "body \<noteq> []" "CHR ''>'' \<notin> set body"
      by auto
    then show ?thesis unfolding hasTag_def by blast
  next
    assume "hasTag xs"
    then obtain pre body post where "xs = pre @ ''<'' @ body @ ''>'' @ post"
      "body \<noteq> []" "CHR ''>'' \<notin> set body"
      unfolding hasTag_def by blast
    then have "x # xs = (x # pre) @ ''<'' @ body @ ''>'' @ post \<and> body \<noteq> [] \<and>
        CHR ''>'' \<notin> set body" by simp
    then show ?thesis unfolding hasTag_def by blast
  qed
qed

lemma dropWhile_no_gt: "CHR ''>'' \<notin> set u \<Longrightarrow> dropWhile (\<lambda>c. c \<noteq> CHR ''>'') u = []"
  by (induction u) auto

lemma tagEnd_no_gt: "CHR ''>'' \<notin> set u \<Longrightarrow> tagEnd (x # u) = None"
  by (cases u) (auto simp: dropWhile_no_gt)

lemma tagEnd_None_specStripTags:
  assumes "tagEnd (x # xs) = None"
  shows "tagEnd (x # specStripTags xs) = None"
proof (cases "x = CHR ''<''")
  case False
  then show ?thesis by (simp add: tagEnd_not_lt)
next
  case True
  show ?thesis
  proof (cases xs)
    case Nil
    then show ?thesis by simp
  next
    case (Cons y t)
    show ?thesis
    proof (cases "y = CHR ''>''")
      case True
      with Cons show ?thesis by (simp add: tagEnd_not_lt)
    next
      case False
      with assms True Cons have "dropWhile (\<lambda>c. c \<noteq> CHR ''>'') t = []"
        by (auto split: list.splits)
      then have "CHR ''>'' \<notin> set t" by auto
      with False Cons have "CHR ''>'' \<notin> set xs" by auto
      with set_specStripTags [of xs] have "CHR ''>'' \<notin> set (specStripTags xs)" by blast
      then show ?thesis by (rule tagEnd_no_gt)
    qed
  qed
qed

lemma no_tag_left: "\<not> hasTag (specStripTags s)"
proof (induction s rule: specStripTags.induct)
  case 1
  show ?case by (simp add: hasTag_Nil)
next
  case (2 x xs)
  show ?case
  proof (cases "tagEnd (x # xs)")
    case None
    with 2(1) [OF None] tagEnd_None_specStripTags [OF None] show ?thesis
      by (simp add: hasTag_Cons)
  next
    case (Some rest)
    with 2(2) [OF Some] show ?thesis by simp
  qed
qed

lemma teamnamerich_normalize:
  "teamnamerich (normalize cd) = replace_g (teamnamerich cd) tagRegex []"
  by (simp add: normalize_def Let_def split: option.splits)

text \<open>
  C6. Normalisation replaces every tag span of \<^verbatim>\<open>teamnamerich\<close> (a \<^verbatim>\<open><\<close>, one or more
  characters other than \<^verbatim>\<open>>\<close>, and a \<^verbatim>\<open>>\<close>) with the empty string: the result is the text
  with the tag spans dropped from left to right, no tag span is left in it, and for a
  text made of plain pieces and tags it is the plain pieces in order.
  \<^verbatim>\<open><span>Team Alpha</span>\<close> becomes \<^verbatim>\<open>Team Alpha\<close>.
\<close>

theorem normalize_strips_tags:
  "teamnamerich (normalize cd) = specStripTags (teamnamerich cd) \<and>
   \<not> hasTag (teamnamerich (normalize cd)) \<and>
   (CHR ''<'' \<notin> set p0 \<and>
    (\<forall>(b, p)\<in>set segs. b \<noteq> [] \<and> CHR ''>'' \<notin> set b \<and> CHR ''<'' \<notin> set p) \<and>
    teamnamerich cd = p0 @ concat (map (\<lambda>(b, p). ''<'' @ b @ ''>'' @ p) segs) \<longrightarrow>
      teamnamerich (normalize cd) = p0 @ concat (map snd segs)) \<and>
   teamnamerich (normalize (cd\<lparr>teamnamerich := ''<span>Team Alpha</span>''\<rparr>)) = ''Team Alpha''"
proof (intro conjI impI)
  show "teamnamerich (normalize cd) = specStripTags (teamnamerich cd)"
    by (simp add: teamnamerich_normalize replace_g_tagRegex)
  show "\<not> hasTag (teamnamerich (normalize cd))"
    by (simp add: teamnamerich_normalize replace_g_tagRegex no_tag_left)
  show "teamnamerich (normalize (cd\<lparr>teamnamerich := ''<span>Team Alpha</span>''\<rparr>)) = ''Team Alpha''"
  proof -
    have "replace_g ''<span>Team Alpha</span>'' tagRegex [] = ''Team Alpha''" by code_simp
    then show ?thesis by (simp add: teamnamerich_normalize)
  qed
next
  assume a: "CHR ''<'' \<notin> set p0 \<and>
    (\<forall>(b, p)\<in>set segs. b \<noteq> [] \<and> CHR ''>'' \<notin> set b \<and> CHR ''<'' \<notin> set p) \<and>
    teamnamerich cd = p0 @ concat (map (\<lambda>(b, p). ''<'' @ b @ ''>'' @ p) segs)"
  then have "specStripTags (teamnamerich cd)
      = p0 @ specStripTags (concat (map (\<lambda>(b, p). ''<'' @ b @ ''>'' @ p) segs))"
    by (simp add: specStripTags_plain)
  also have "\<dots> = p0 @ concat (map snd segs)"
    using specStripTags_segments [of segs] a by simp
  finally show "teamnamerich (normalize cd) = p0 @ concat (map snd segs)"
    by (simp add: teamnamerich_normalize replace_g_tagRegex)
qed

theorem normalize_strips_tags_witness:
  "teamnamerich rawDetail = ''<span>Team Alpha</span>'' \<and>
   teamnamerich (normalize rawDetail) = ''Team Alpha'' \<and>
   \<not> hasTag (teamnamerich (normalize rawDetail))"
proof -
  have t: "teamnamerich rawDetail = ''<span>Team Alpha</span>''" by (simp add: rawDetail_def)
  have h: "CHR ''<'' \<notin> set [] \<and>
    (\<forall>(b, p)\<in>set [(''span'', ''Team Alpha''), (''/span'', [])].
        b \<noteq> [] \<and> CHR ''>'' \<notin> set b \<and> CHR ''<'' \<notin> set p) \<and>
    teamnamerich rawDetail
      = [] @ concat (map (\<lambda>(b, p). ''<'' @ b @ ''>'' @ p) [(''span'', ''Team Alpha''), (''/span'', [])])"
    by (simp add: rawDetail_def)
  note n = normalize_strips_tags [of rawDetail "[]" "[(''span'', ''Team Alpha''), (''/span'', [])]"]
  from n h have "teamnamerich (normalize rawDetail)
      = [] @ concat (map snd [(''span'', ''Team Alpha''), (''/span'', [])])" by blast
  then have "teamnamerich (normalize rawDetail) = ''Team Alpha''" by simp
  with t n show ?thesis by blast
qed

section \<open>Team name and bracket\<close>

lemma lazyTails_hd: "s \<in> set (lazyTails p s)"
  by (cases s) simp_all

lemma lazyTails_suffix: "t \<in> set (lazyTails p s) \<Longrightarrow> \<exists>pre. s = pre @ t"
proof (induction s)
  case Nil
  then show ?case by simp
next
  case (Cons x xs)
  show ?case
  proof (cases "t = x # xs")
    case True
    then show ?thesis by simp
  next
    case False
    with Cons.prems have "t \<in> set (lazyTails p xs)" by (auto split: if_splits)
    from Cons.IH [OF this] obtain pre where "xs = pre @ t" ..
    then have "x # xs = (x # pre) @ t" by simp
    then show ?thesis ..
  qed
qed

lemma bracketAt_SomeD:
  assumes "bracketAt s = Some rest"
  shows "\<exists>n1 n2. s = ''('' @ n1 @ ''v'' @ n2 @ '')'' @ rest \<and> n1 \<noteq> [] \<and> (\<forall>c\<in>set n1. isDigit c) \<and>
        n2 \<noteq> [] \<and> (\<forall>c\<in>set n2. isDigit c)"
proof -
  from assms obtain d t e u where s: "s = CHR ''('' # d # t" "isDigit d"
    and t: "dropWhile isDigit t = CHR ''v'' # e # u" "isDigit e"
    and u: "dropWhile isDigit u = CHR '')'' # rest"
    unfolding bracketAt_def by (auto split: list.splits if_splits)
  have "t = takeWhile isDigit t @ CHR ''v'' # e # u" by (metis t(1) takeWhile_dropWhile_id)
  moreover have "u = takeWhile isDigit u @ CHR '')'' # rest" by (metis u takeWhile_dropWhile_id)
  ultimately have "s = ''('' @ (d # takeWhile isDigit t) @ ''v'' @ (e # takeWhile isDigit u) @ '')'' @ rest"
    using s(1) by simp
  moreover have "\<forall>c\<in>set (d # takeWhile isDigit t). isDigit c"
    using s(2) by (auto dest: set_takeWhileD)
  moreover have "\<forall>c\<in>set (e # takeWhile isDigit u). isDigit c"
    using t(2) by (auto dest: set_takeWhileD)
  ultimately show ?thesis by blast
qed

lemma bracketAt_bracket:
  assumes "n1 \<noteq> []" "\<forall>c\<in>set n1. isDigit c" "n2 \<noteq> []" "\<forall>c\<in>set n2. isDigit c"
  shows "bracketAt (''('' @ n1 @ ''v'' @ n2 @ '')'' @ rest) = Some rest"
proof -
  from assms obtain d n1' e n2' where n: "n1 = d # n1'" "n2 = e # n2'"
    by (cases n1; cases n2) auto
  have a: "dropWhile isDigit (n1' @ CHR ''v'' # e # n2' @ CHR '')'' # rest)
      = CHR ''v'' # e # n2' @ CHR '')'' # rest"
    using assms(2) n by simp
  have b: "dropWhile isDigit (n2' @ CHR '')'' # rest) = CHR '')'' # rest"
    using assms(4) n by simp
  show ?thesis using n assms(2,4) a b by (simp add: bracketAt_def)
qed


lemma teamBracketRegex_parts:
  "teamBracketRegex = Cat (Group 1 (Lazy (Atom Dot))) (Cat (Star (Atom Space)) bracketTail)"
  by (simp add: teamBracketRegex_def bracketTail_def)

lemma run_spaces_bracketTail:
  "run (Cat (Star (Atom Space)) bracketTail) (t, c) k = run bracketTail (dropWhile isSpace t, c) k"
proof -
  have "run (Star (Atom Space)) (t, c) (\<lambda>st. run bracketTail st k)
      = run bracketTail (dropWhile isSpace t, c) k"
    unfolding bracketTail_def run_Cat [of "Atom (Lit CHR ''('')"]
    using run_Star_then_Lit [of Space "CHR ''(''" t c] by (simp add: accepts_eta)
  then show ?thesis by (simp add: run_Cat)
qed

lemma matcher_spaces_bracketTail:
  "matcher (Cat (Star (Atom Space)) bracketTail) (t, c) \<noteq> [] \<longleftrightarrow>
     bracketAt (dropWhile isSpace t) \<noteq> None"
proof -
  obtain c' where "run bracketTail (dropWhile isSpace t, c) (\<lambda>st'. [st'])
      = (case bracketAt (dropWhile isSpace t) of None \<Rightarrow> [] | Some rest \<Rightarrow> [(rest, c')])"
    using run_bracketTail [of "dropWhile isSpace t" c "\<lambda>st'. [st']"] by blast
  then show ?thesis
    by (simp add: matcher_run run_spaces_bracketTail split: option.splits)
qed

lemma matcher_teamBracketRegex_iff:
  "matcher teamBracketRegex (s, cs) \<noteq> [] \<longleftrightarrow>
     (\<exists>t\<in>set (lazyTails (accepts Dot) s). bracketAt (dropWhile isSpace t) \<noteq> None)"
proof -
  have e: "matcher teamBracketRegex (s, cs)
      = concat (map (\<lambda>t. matcher (Cat (Star (Atom Space)) bracketTail)
                            (t, cs(1 \<mapsto> take (length s - length t) s)))
                    (lazyTails (accepts Dot) s))"
    unfolding teamBracketRegex_parts
    by (simp add: matcher_Lazy_Atom o_def)
  show ?thesis unfolding e
    by (simp add: matcher_spaces_bracketTail del: matcher.simps(4))
qed

lemma str_match_teamBracketRegex_iff:
  "str_match text teamBracketRegex \<noteq> None \<longleftrightarrow> hasBracket text"
proof
  assume "str_match text teamBracketRegex \<noteq> None"
  then obtain pre suf where ps: "text = pre @ suf" "matcher teamBracketRegex (suf, Map.empty) \<noteq> []"
    unfolding str_match_Some_iff by blast
  from ps(2) obtain t rest where t: "t \<in> set (lazyTails (accepts Dot) suf)"
      "bracketAt (dropWhile isSpace t) = Some rest"
    unfolding matcher_teamBracketRegex_iff by auto
  from lazyTails_suffix [OF t(1)] obtain p1 where p1: "suf = p1 @ t" ..
  obtain p2 where p2: "t = p2 @ dropWhile isSpace t" using dropWhile_suffix [of t isSpace] by blast
  from bracketAt_SomeD [OF t(2)] obtain n1 n2 where
    n: "dropWhile isSpace t = ''('' @ n1 @ ''v'' @ n2 @ '')'' @ rest" "n1 \<noteq> []"
       "\<forall>c\<in>set n1. isDigit c" "n2 \<noteq> []" "\<forall>c\<in>set n2. isDigit c" by blast
  have "text = (pre @ p1 @ p2) @ ''('' @ n1 @ ''v'' @ n2 @ '')'' @ rest"
    using ps(1) p1 p2 n(1) by (metis append.assoc)
  with n(2-5) show "hasBracket text" unfolding hasBracket_def by blast
next
  assume "hasBracket text"
  then obtain pre n1 n2 post where h: "text = pre @ ''('' @ n1 @ ''v'' @ n2 @ '')'' @ post"
    "n1 \<noteq> []" "\<forall>c\<in>set n1. isDigit c" "n2 \<noteq> []" "\<forall>c\<in>set n2. isDigit c"
    unfolding hasBracket_def by blast
  let ?suf = "''('' @ n1 @ ''v'' @ n2 @ '')'' @ post"
  have "dropWhile isSpace ?suf = ?suf" by simp
  with bracketAt_bracket [OF h(2-5), of post]
  have "bracketAt (dropWhile isSpace ?suf) \<noteq> None" by simp
  with lazyTails_hd [of ?suf "accepts Dot"]
  have "matcher teamBracketRegex (?suf, Map.empty) \<noteq> []"
    unfolding matcher_teamBracketRegex_iff by blast
  with h(1) show "str_match text teamBracketRegex \<noteq> None"
    unfolding str_match_Some_iff by blast
qed


lemma concat_lazyTails_skip:
  "\<forall>c\<in>set a. p c \<Longrightarrow> (\<And>q u. a = q @ u \<Longrightarrow> u \<noteq> [] \<Longrightarrow> F (u @ b) = []) \<Longrightarrow>
     concat (map F (lazyTails p (a @ b))) = concat (map F (lazyTails p b))"
proof (induction a)
  case Nil
  show ?case by simp
next
  case (Cons x a)
  have "F ((x # a) @ b) = []" by (rule Cons.prems(2) [of "[]"]) simp_all
  moreover have "concat (map F (lazyTails p (a @ b))) = concat (map F (lazyTails p b))"
  proof (rule Cons.IH)
    show "\<forall>c\<in>set a. p c" using Cons.prems(1) by simp
    fix q u assume "a = q @ u" "u \<noteq> []"
    then show "F (u @ b) = []" using Cons.prems(2) [of "x # q" u] by simp
  qed
  ultimately show ?case using Cons.prems(1) by simp
qed

lemma lazyTails_Cons: "\<exists>ts. lazyTails p s = s # ts"
  by (cases s) simp_all

lemma run_bracketTail_bracket:
  assumes "n1 \<noteq> []" "\<forall>c\<in>set n1. isDigit c" "n2 \<noteq> []" "\<forall>c\<in>set n2. isDigit c"
  shows "run bracketTail (''('' @ n1 @ ''v'' @ n2 @ '')'' @ post, cs) k
           = k (post, cs(2 \<mapsto> n1 @ ''v'' @ n2))"
proof -
  from assms obtain d n1' e n2' where n: "n1 = d # n1'" "n2 = e # n2'"
    by (cases n1; cases n2) auto
  have a: "dropWhile isDigit (n1' @ CHR ''v'' # e # n2' @ CHR '')'' # post)
      = CHR ''v'' # e # n2' @ CHR '')'' # post"
    using assms(2) n by simp
  have b: "dropWhile isDigit (n2' @ CHR '')'' # post) = CHR '')'' # post"
    using assms(4) n by simp
  have c: "take (Suc (length n1' + Suc (Suc (length n2' + Suc (length post)))) - Suc (length post))
             (d # n1' @ CHR ''v'' # e # n2' @ CHR '')'' # post) = d # n1' @ CHR ''v'' # e # n2'"
  proof -
    have "Suc (length n1' + Suc (Suc (length n2' + Suc (length post)))) - Suc (length post)
        = length (d # n1' @ CHR ''v'' # e # n2')" by simp
    then show ?thesis
      by (metis append.assoc append_Cons append_eq_conv_conj)
  qed
  show ?thesis
    using assms(2,4) n a b c
    by (simp add: bracketTail_def run_Cat run_Group run_Atom run_Plus_then_Lit
        run_Plus_then_Lit_upd accepts_eta)
qed

lemma bracketAt_not_paren: "x \<noteq> CHR ''('' \<Longrightarrow> bracketAt (x # xs) = None"
  by (simp add: bracketAt_def split: list.splits)

lemma no_bracket_in_name:
  assumes "name = q @ u" "u \<noteq> []" "CHR ''('' \<notin> set name" "\<not> isSpace (last name)"
  shows "matcher (Cat (Star (Atom Space)) bracketTail) (u @ rest, c) = []"
proof -
  have "last u = last name" using assms(1,2) by simp
  with assms(2,4) have "\<exists>x\<in>set u. \<not> isSpace x" by (metis last_in_set)
  then obtain x where x: "x \<in> set u" "\<not> isSpace x" by blast
  have dw: "dropWhile isSpace (u @ rest) = dropWhile isSpace u @ rest"
    using x by (rule dropWhile_append1)
  have ne: "dropWhile isSpace u \<noteq> []"
    using x by auto
  from ne obtain y ys where y: "dropWhile isSpace u = y # ys" by (cases "dropWhile isSpace u") auto
  then have "y \<in> set u" by (metis list.set_intros(1) set_dropWhileD)
  with assms(1,3) have "y \<noteq> CHR ''(''" by auto
  then have "bracketAt (dropWhile isSpace (u @ rest)) = None"
    using dw y by (simp add: bracketAt_not_paren)
  then show ?thesis using matcher_spaces_bracketTail [of "u @ rest" c] by simp
qed

lemma matcher_teamBracketRegex_name:
  assumes "\<forall>c\<in>set name. \<not> isLineTerminator c" "CHR ''('' \<notin> set name"
    "name = [] \<or> \<not> isSpace (last name)" "\<forall>c\<in>set ws. isSpace c"
    "n1 \<noteq> []" "\<forall>c\<in>set n1. isDigit c" "n2 \<noteq> []" "\<forall>c\<in>set n2. isDigit c"
  shows "\<exists>others. matcher teamBracketRegex (name @ ws @ ''('' @ n1 @ ''v'' @ n2 @ '')'' @ post, Map.empty)
           = (post, [1 \<mapsto> name, 2 \<mapsto> n1 @ ''v'' @ n2]) # others"
proof -
  let ?rest = "ws @ ''('' @ n1 @ ''v'' @ n2 @ '')'' @ post"
  let ?s = "name @ ?rest"
  let ?F = "\<lambda>t. matcher (Cat (Star (Atom Space)) bracketTail)
                   (t, [1 \<mapsto> take (length ?s - length t) ?s])"
  have e: "matcher teamBracketRegex (?s, Map.empty) = concat (map ?F (lazyTails (accepts Dot) ?s))"
    unfolding teamBracketRegex_parts by (simp add: matcher_Lazy_Atom o_def)
  have "concat (map ?F (lazyTails (accepts Dot) (name @ ?rest)))
      = concat (map ?F (lazyTails (accepts Dot) ?rest))"
  proof (rule concat_lazyTails_skip)
    show "\<forall>c\<in>set name. accepts Dot c" using assms(1) by simp
    fix q u assume qu: "name = q @ u" "u \<noteq> []"
    then have "name \<noteq> []" by auto
    with assms(3) have "\<not> isSpace (last name)" by simp
    from no_bracket_in_name [OF qu assms(2) this] show "?F (u @ ?rest) = []" .
  qed
  moreover obtain ts where "lazyTails (accepts Dot) ?rest = ?rest # ts"
    using lazyTails_Cons by blast
  moreover have "?F ?rest = [(post, [1 \<mapsto> name, 2 \<mapsto> n1 @ ''v'' @ n2])]"
  proof -
    have dw: "dropWhile isSpace ?rest = ''('' @ n1 @ ''v'' @ n2 @ '')'' @ post"
      using takeWhile_dropWhile_digits [of ws isSpace "''('' @ n1 @ ''v'' @ n2 @ '')'' @ post"]
        assms(4) by simp
    have tk: "take (length ?s - length ?rest) ?s = name" by simp
    have "?F ?rest = run bracketTail (''('' @ n1 @ ''v'' @ n2 @ '')'' @ post, [1 \<mapsto> name])
        (\<lambda>st'. [st'])"
      unfolding tk matcher_run [of "Cat (Star (Atom Space)) bracketTail"] run_spaces_bracketTail dw ..
    also have "\<dots> = [(post, [1 \<mapsto> name, 2 \<mapsto> n1 @ ''v'' @ n2])]"
      by (rule run_bracketTail_bracket [OF assms(5-8)])
    finally show ?thesis .
  qed
  ultimately show ?thesis unfolding e by simp
qed

lemma splitTeamBracket_name:
  assumes "\<forall>c\<in>set name. \<not> isLineTerminator c" "CHR ''('' \<notin> set name"
    "name = [] \<or> \<not> isSpace (last name)" "\<forall>c\<in>set ws. isSpace c"
    "n1 \<noteq> []" "\<forall>c\<in>set n1. isDigit c" "n2 \<noteq> []" "\<forall>c\<in>set n2. isDigit c"
  shows "splitTeamBracket (name @ ws @ ''('' @ n1 @ ''v'' @ n2 @ '')'' @ post)
           = (name, n1 @ ''v'' @ n2)"
proof -
  let ?s = "name @ ws @ ''('' @ n1 @ ''v'' @ n2 @ '')'' @ post"
  from matcher_teamBracketRegex_name [OF assms, of post] obtain others where
    m: "matcher teamBracketRegex (?s, Map.empty) = (post, [1 \<mapsto> name, 2 \<mapsto> n1 @ ''v'' @ n2]) # others"
    by blast
  have ne: "?s \<noteq> []" by simp
  then obtain x xs where xs: "?s = x # xs" by (cases ?s) auto
  have "\<exists>m. str_match ?s teamBracketRegex = Some (m, [1 \<mapsto> name, 2 \<mapsto> n1 @ ''v'' @ n2])"
    using m unfolding xs by simp
  then show ?thesis using ne by (auto simp: splitTeamBracket_def)
qed

lemma splitTeamBracket_plain:
  assumes "plainName name" "bracketLabel b" "\<forall>c\<in>set ws. isSpace c"
  shows "splitTeamBracket (name @ ws @ ''('' @ b @ '')'' @ post) = (name, b)"
proof -
  from assms(2) obtain n1 n2 where b: "b = n1 @ ''v'' @ n2" "n1 \<noteq> []" "\<forall>c\<in>set n1. isDigit c"
    "n2 \<noteq> []" "\<forall>c\<in>set n2. isDigit c"
    unfolding bracketLabel_def by blast
  from assms(1) have n: "\<forall>c\<in>set name. \<not> isLineTerminator c" "CHR ''('' \<notin> set name"
    "name = [] \<or> \<not> isSpace (last name)"
    unfolding plainName_def by blast+
  from splitTeamBracket_name [OF n assms(3) b(2-5), of post] show ?thesis
    unfolding b(1) by simp
qed

lemma trim_id: "\<not> isSpace x \<Longrightarrow> \<not> isSpace (last (x # xs)) \<Longrightarrow> trim (x # xs) = x # xs"
proof -
  assume a: "\<not> isSpace x" "\<not> isSpace (last (x # xs))"
  have "rev (x # xs) \<noteq> []" by simp
  then obtain y ys where r: "rev (x # xs) = y # ys" by (cases "rev (x # xs)") auto
  then have "y = last (x # xs)" by (metis hd_rev list.sel(1))
  with a(2) r have "dropWhile isSpace (rev (x # xs)) = rev (x # xs)" by simp
  with a(1) show ?thesis by (simp add: trim_def)
qed

lemma extractRow_plain:
  assumes "plainName name" "bracketLabel b" "name \<noteq> []" "\<not> isSpace (hd name)"
    and "td2_a row = name @ '' ('' @ b @ '')''"
  shows "team_name (extractRow row) = name \<and> bracket (extractRow row) = b"
proof -
  from assms(3) obtain x xs where n: "name = x # xs" by (cases name) auto
  have "trim (td2_a row) = td2_a row"
    unfolding assms(5) n using assms(4) n
    by (simp add: trim_id [of x "xs @ '' ('' @ b @ '')''", simplified] isSpace_def)
  moreover have "splitTeamBracket (name @ '' '' @ ''('' @ b @ '')'' @ []) = (name, b)"
    by (rule splitTeamBracket_plain [OF assms(1,2)]) (simp add: isSpace_def)
  ultimately show ?thesis using assms(5) by (simp add: extractRow_def Let_def)
qed

lemma splitTeamBracket_no_match:
  "str_match teamBracketText teamBracketRegex = None \<Longrightarrow> splitTeamBracket teamBracketText = ([], [])"
  by (simp add: splitTeamBracket_def)

text \<open>
  C7. For every row, the team name and the bracket are the two groups of
  \<^verbatim>\<open>teamBracketRegex\<close> on the trimmed text of the link in the second cell:
  \<^verbatim>\<open>Alpha Strike (2v2)\<close> gives \<^verbatim>\<open>Alpha Strike\<close> and \<^verbatim>\<open>2v2\<close>. The pattern matches exactly
  when the text contains a parenthesised bracket \<^verbatim>\<open>(NvN)\<close>; when it does not match, team
  name and bracket are both the empty string, and no error is raised (\<open>extractRow\<close> is
  total). For every plain team name and bracket label, the text made of the name, white
  space and the label in parentheses splits into the name and the label.
\<close>

theorem extractRow_team_bracket:
  "splitTeamBracket ''Alpha Strike (2v2)'' = (''Alpha Strike'', ''2v2'') \<and>
   (td2_a row = ''Alpha Strike (2v2)'' \<longrightarrow>
      team_name (extractRow row) = ''Alpha Strike'' \<and> bracket (extractRow row) = ''2v2'') \<and>
   (str_match teamBracketText teamBracketRegex \<noteq> None \<longleftrightarrow> hasBracket teamBracketText) \<and>
   (str_match teamBracketText teamBracketRegex = None \<longrightarrow> splitTeamBracket teamBracketText = ([], [])) \<and>
   (\<not> hasBracket teamBracketText \<longrightarrow> splitTeamBracket teamBracketText = ([], [])) \<and>
   (\<not> hasBracket (trim (td2_a row)) \<longrightarrow>
      team_name (extractRow row) = [] \<and> bracket (extractRow row) = []) \<and>
   (plainName name \<and> bracketLabel b \<and> (\<forall>c\<in>set ws. isSpace c) \<longrightarrow>
      splitTeamBracket (name @ ws @ ''('' @ b @ '')'' @ post) = (name, b)) \<and>
   (plainName name \<and> bracketLabel b \<and> name \<noteq> [] \<and> \<not> isSpace (hd name) \<and>
    td2_a row = name @ '' ('' @ b @ '')'' \<longrightarrow>
      team_name (extractRow row) = name \<and> bracket (extractRow row) = b) \<and>
   map (\<lambda>m. (team_name m, bracket m)) (extractMatchSummaries rows)
     = map (\<lambda>r. splitTeamBracket (trim (td2_a r))) rows"
proof -
  have ex: "splitTeamBracket ''Alpha Strike (2v2)'' = (''Alpha Strike'', ''2v2'')"
    by code_simp
  have tr: "trim ''Alpha Strike (2v2)'' = ''Alpha Strike (2v2)''"
    by code_simp
  have nomatch: "splitTeamBracket t = ([], [])" if "\<not> hasBracket t" for t
  proof -
    from that have "str_match t teamBracketRegex = None"
      using str_match_teamBracketRegex_iff [of t] by blast
    then show ?thesis by (rule splitTeamBracket_no_match)
  qed
  have rowf: "team_name (extractRow r) = fst (splitTeamBracket (trim (td2_a r)))"
    "bracket (extractRow r) = snd (splitTeamBracket (trim (td2_a r)))" for r
    by (simp_all add: extractRow_def Let_def)
  have gen: "splitTeamBracket (name @ ws @ ''('' @ b @ '')'' @ post) = (name, b)"
    if "plainName name" "bracketLabel b" "\<forall>c\<in>set ws. isSpace c"
    using that by (rule splitTeamBracket_plain)
  have genrow: "team_name (extractRow row) = name \<and> bracket (extractRow row) = b"
    if "plainName name" "bracketLabel b" "name \<noteq> []" "\<not> isSpace (hd name)"
      "td2_a row = name @ '' ('' @ b @ '')''"
    using that by (rule extractRow_plain)
  have rows: "map (\<lambda>m. (team_name m, bracket m)) (extractMatchSummaries rows)
      = map (\<lambda>r. splitTeamBracket (trim (td2_a r))) rows"
    by (simp add: extractMatchSummaries_def rowf)
  have exrow: "team_name (extractRow row) = ''Alpha Strike'' \<and> bracket (extractRow row) = ''2v2''"
    if "td2_a row = ''Alpha Strike (2v2)''"
    using that ex tr by (simp add: rowf)
  have norow: "team_name (extractRow row) = [] \<and> bracket (extractRow row) = []"
    if "\<not> hasBracket (trim (td2_a row))"
    using nomatch [OF that] by (simp add: rowf)
  from ex exrow str_match_teamBracketRegex_iff [of teamBracketText]
    splitTeamBracket_no_match [of teamBracketText] nomatch [of teamBracketText] norow gen genrow rows
  show ?thesis by blast
qed

theorem extractRow_team_bracket_witness:
  "plainName ''Alpha Strike'' \<and> bracketLabel ''2v2'' \<and>
   splitTeamBracket ''Alpha Strike  (2v2)'' = (''Alpha Strike'', ''2v2'') \<and>
   \<not> hasBracket ''Alpha Strike 2v2'' \<and>
   splitTeamBracket ''Alpha Strike 2v2'' = ([], []) \<and>
   team_name (extractRow \<lparr>td1 = ''17'', td2_a = '' Alpha Strike (2v2) '', td3 = ''Win'', td4 = ''+12'',
       td5 = ''2023-05-01'', td6 = ''03:21'', td7 = ''Nagrand Arena''\<rparr>) = ''Alpha Strike'' \<and>
   bracket (extractRow \<lparr>td1 = ''17'', td2_a = ''Alpha Strike (2v2)'', td3 = ''Win'', td4 = ''+12'',
       td5 = ''2023-05-01'', td6 = ''03:21'', td7 = ''Nagrand Arena''\<rparr>) = ''2v2'' \<and>
   team_name (extractRow \<lparr>td1 = ''17'', td2_a = ''Alpha Strike'', td3 = ''Win'', td4 = ''+12'',
       td5 = ''2023-05-01'', td6 = ''03:21'', td7 = ''Nagrand Arena''\<rparr>) = []"
proof -
  let ?r1 = "\<lparr>td1 = ''17'', td2_a = '' Alpha Strike (2v2) '', td3 = ''Win'', td4 = ''+12'',
       td5 = ''2023-05-01'', td6 = ''03:21'', td7 = ''Nagrand Arena''\<rparr>"
  let ?r2 = "\<lparr>td1 = ''17'', td2_a = ''Alpha Strike (2v2)'', td3 = ''Win'', td4 = ''+12'',
       td5 = ''2023-05-01'', td6 = ''03:21'', td7 = ''Nagrand Arena''\<rparr>"
  let ?r3 = "\<lparr>td1 = ''17'', td2_a = ''Alpha Strike'', td3 = ''Win'', td4 = ''+12'',
       td5 = ''2023-05-01'', td6 = ''03:21'', td7 = ''Nagrand Arena''\<rparr>"
  have "Option.is_none (str_match ''Alpha Strike 2v2'' teamBracketRegex)" by code_simp
  then have n1: "str_match ''Alpha Strike 2v2'' teamBracketRegex = None"
    by (simp add: Option.is_none_def)
  have "Option.is_none (str_match ''Alpha Strike'' teamBracketRegex)" by code_simp
  then have n2: "str_match ''Alpha Strike'' teamBracketRegex = None"
    by (simp add: Option.is_none_def)
  have tr: "trim ''Alpha Strike'' = ''Alpha Strike''" "trim '' Alpha Strike (2v2) '' = ''Alpha Strike (2v2)''"
    by code_simp+
  have pn: "plainName ''Alpha Strike''"
    by (simp add: plainName_def isLineTerminator_def isSpace_def)
  have "''2v2'' = ''2'' @ ''v'' @ ''2'' \<and> ''2'' \<noteq> [] \<and> (\<forall>c\<in>set ''2''. isDigit c)"
    by (simp add: isDigit_def)
  then have bl: "bracketLabel ''2v2''" unfolding bracketLabel_def by blast
  have sp: "\<forall>c\<in>set ''  ''. isSpace c" by (simp add: isSpace_def)
  note t0 = extractRow_team_bracket
    [where name = "''Alpha Strike''" and b = "''2v2''" and ws = "''  ''" and post = "[]"]
  from t0 pn bl sp have "splitTeamBracket (''Alpha Strike'' @ ''  '' @ ''('' @ ''2v2'' @ '')'' @ [])
      = (''Alpha Strike'', ''2v2'')" by blast
  then have g: "splitTeamBracket ''Alpha Strike  (2v2)'' = (''Alpha Strike'', ''2v2'')" by simp
  note t1 = extractRow_team_bracket [where row = ?r2 and teamBracketText = "''Alpha Strike 2v2''"]
  note t3 = extractRow_team_bracket [where row = ?r3 and teamBracketText = "''Alpha Strike''"]
  note t4 = extractRow_team_bracket [where row = ?r1 and rows = "[?r1]"]
  from t1 n1 have a: "\<not> hasBracket ''Alpha Strike 2v2''" by blast
  with t1 have b: "splitTeamBracket ''Alpha Strike 2v2'' = ([], [])" by blast
  from t1 have c: "bracket (extractRow ?r2) = ''2v2''" by simp
  from t3 n2 have "\<not> hasBracket (trim (td2_a ?r3))" by (simp add: tr)
  with t3 have d: "team_name (extractRow ?r3) = []" by blast
  from t4 have "map (\<lambda>m. (team_name m, bracket m)) (extractMatchSummaries [?r1])
     = map (\<lambda>r. splitTeamBracket (trim (td2_a r))) [?r1]" by blast
  then have "(team_name (extractRow ?r1), bracket (extractRow ?r1))
      = splitTeamBracket ''Alpha Strike (2v2)''"
    by (simp add: extractMatchSummaries_def tr)
  moreover from t4 have "splitTeamBracket ''Alpha Strike (2v2)'' = (''Alpha Strike'', ''2v2'')"
    by blast
  ultimately have e: "team_name (extractRow ?r1) = ''Alpha Strike''" by simp
  from pn bl g a b c d e show ?thesis by blast
qed

end
